theory Spec2Isabelle
  imports Main "HOL-Library.Word"
begin

unbundle bit_operations_syntax

section \<open>The tag reader (node-opcua-crypto, common.ts)\<close>

text \<open>
  A \<open>Buffer\<close> is a list of bytes. Everything the TypeScript throws is a value of
  \<open>error\<close>; a function that can throw returns \<open>error + 'a\<close>, with \<open>Inl\<close> the
  exception.
\<close>

type_synonym byte = "8 word"
type_synonym Buffer = "byte list"

datatype error =
    InvalidPosition
  | ERR_OUT_OF_RANGE
  | AssertionError
  | TypeError
  | ParseError
  | InvalidPublicKeyLength
  | IOError

text \<open>\<open>buf.readUInt8(offset)\<close> throws a RangeError outside the buffer.\<close>

definition readUInt8 :: "Buffer \<Rightarrow> nat \<Rightarrow> error + nat" where
  "readUInt8 buf off = (if off < length buf then Inr (unat (buf ! off)) else Inl ERR_OUT_OF_RANGE)"

text \<open>
  The block length is a JavaScript \<open>number\<close>, an IEEE-754 double: an integer below
  \<open>2 ^ 53\<close> is held exactly, a larger one is rounded to 53 significant bits, to the
  nearest value and to the even one on a tie. \<open>js_number x\<close> is the number that holds
  the integer \<open>x\<close> (every value met here is below \<open>2 ^ 1017\<close>, so none overflows).
  Offsets into a buffer are far below \<open>2 ^ 53\<close> and are plain naturals.
\<close>

fun bit_length :: "nat \<Rightarrow> nat" where
  "bit_length n = (if n = 0 then 0 else Suc (bit_length (n div 2)))"

declare bit_length.simps [simp del]

definition js_number :: "nat \<Rightarrow> nat" where
  "js_number x =
     (if x < 2 ^ 53 then x
      else let e = bit_length x - 53;
               q = x div 2 ^ e;
               r = x mod 2 ^ e;
               half = 2 ^ (e - 1)
           in if r < half \<or> (r = half \<and> even q) then q * 2 ^ e else (q + 1) * 2 ^ e)"

record BlockInfo =
  tag :: nat
  position :: nat
  length_blk :: nat

text \<open>
  The \<open>for\<close> loop of \<open>readTag\<close>: \<open>k\<close> iterations are left,
  \<open>length = length * 256 + buf.readUInt8(pos); pos += 1\<close>.
\<close>

fun readTag_loop :: "Buffer \<Rightarrow> nat \<Rightarrow> nat \<Rightarrow> nat \<Rightarrow> error + (nat \<times> nat)" where
  "readTag_loop buf 0 len pos = Inr (len, pos)"
| "readTag_loop buf (Suc k) len pos =
     (case readUInt8 buf pos of
        Inl e \<Rightarrow> Inl e
      | Inr b \<Rightarrow> readTag_loop buf k (js_number (len * 256 + b)) (pos + 1))"

definition readTag :: "Buffer \<Rightarrow> nat \<Rightarrow> error + BlockInfo" where
  "readTag buf pos =
     (if length buf \<le> pos then Inl InvalidPosition
      else case readUInt8 buf pos of
        Inl e \<Rightarrow> Inl e
      | Inr t \<Rightarrow>
         (case readUInt8 buf (pos + 1) of
            Inl e \<Rightarrow> Inl e
          | Inr len \<Rightarrow>
             if len > 127 then
               (case readTag_loop buf (len AND 0x7f) 0 (pos + 2) of
                  Inl e \<Rightarrow> Inl e
                | Inr (len', pos') \<Rightarrow> Inr \<lparr>tag = t, position = pos', length_blk = len'\<rparr>)
             else Inr \<lparr>tag = t, position = pos + 2, length_blk = len\<rparr>))"

lemma readTag_loop_pos:
  "readTag_loop buf k len pos = Inr (len', pos') \<Longrightarrow> pos' = pos + k"
  by (induction k arbitrary: len pos) (fastforce split: sum.splits)+

lemma readTag_position_ge2:
  "readTag buf pos = Inr bi \<Longrightarrow> pos + 2 \<le> position bi"
  by (auto simp: readTag_def split: if_splits sum.splits dest: readTag_loop_pos)

lemma pow2_bit_length: "0 < x \<Longrightarrow> 2 ^ bit_length x \<le> 2 * x"
proof (induction x rule: bit_length.induct)
  case (1 n)
  show ?case
  proof (cases "n div 2 = 0")
    case True
    with 1 have "n = 1" by (simp add: div_eq_0_iff)
    then show ?thesis by (simp add: bit_length.simps [of "Suc 0"] bit_length.simps [of 0])
  next
    case False
    with 1 have "2 ^ bit_length (n div 2) \<le> 2 * (n div 2)" by simp
    moreover have "2 * (n div 2) \<le> n" by simp
    ultimately show ?thesis using 1 by (simp add: bit_length.simps [of n])
  qed
qed

lemma js_number_pos: "0 < x \<Longrightarrow> 0 < js_number x"
proof (cases "x < 2 ^ 53")
  case True
  assume "0 < x"
  with True show ?thesis by (simp add: js_number_def)
next
  case False
  assume x: "0 < x"
  let ?e = "bit_length x - 53"
  have "2 ^ bit_length x \<le> 2 * x" using x by (rule pow2_bit_length)
  moreover have "0 < bit_length x" using x by (simp add: bit_length.simps [of x])
  ultimately have a: "2 ^ (bit_length x - 1) \<le> x"
    by (cases "bit_length x") simp_all
  have "(2::nat) ^ ?e \<le> 2 ^ (bit_length x - 1)"
    by (rule power_increasing) simp_all
  from this a have "2 ^ ?e \<le> x" by (rule order_trans)
  then have "0 < x div 2 ^ ?e" by (simp add: div_greater_zero_iff)
  then show ?thesis using False by (simp add: js_number_def Let_def)
qed


section \<open>Splitting and combining certificate chains (crypto_explore_certificate.ts)\<close>

text \<open>
  \<open>split_der\<close> is a \<open>do ... while (certificateChain.length > 0)\<close> loop that pushes
  one block per round; \<open>acc\<close> is \<open>certificate_chain\<close>. \<open>Buffer.slice\<close> clamps its
  bounds to the buffer, as \<open>take\<close> and \<open>drop\<close> do.
\<close>

function split_der_loop :: "Buffer \<Rightarrow> Buffer list \<Rightarrow> error + Buffer list" where
  "split_der_loop certificateChain acc =
     (case readTag certificateChain 0 of
        Inl e \<Rightarrow> Inl e
      | Inr block_info \<Rightarrow>
         (let len = js_number (position block_info + length_blk block_info);
              der_certificate = take len certificateChain;
              acc' = acc @ [der_certificate];
              rest = drop len certificateChain
          in if length rest > 0 then split_der_loop rest acc' else Inr acc'))"
  by pat_completeness auto
termination
proof (relation "measure (\<lambda>(chain, acc). length chain)")
  show "wf (measure (\<lambda>(chain, acc). length chain))" by simp
next
  fix certificateChain :: Buffer and acc :: "Buffer list" and block_info len der acc' rest
  assume rt: "readTag certificateChain 0 = Inr block_info"
    and len: "len = js_number (position block_info + length_blk block_info)"
    and rest: "rest = drop len certificateChain" and pos: "0 < length rest"
  have "0 < position block_info + length_blk block_info"
    using readTag_position_ge2 [OF rt] by simp
  then have "0 < len" unfolding len by (rule js_number_pos)
  then show "((rest, acc'), (certificateChain, acc)) \<in> measure (\<lambda>(chain, acc). length chain)"
    using pos rest by simp
qed

declare split_der_loop.simps [simp del]

definition split_der :: "Buffer \<Rightarrow> error + Buffer list" where
  "split_der certificateChain = split_der_loop certificateChain []"

text \<open>
  \<open>combine_der\<close>: the sanity check over every certificate (the inner \<open>forEach\<close> is
  \<open>combine_der_blocks\<close>, with the running \<open>sum\<close>), then \<open>Buffer.concat\<close>. A failed
  \<open>assert\<close> throws.
\<close>

fun combine_der_blocks :: "Buffer list \<Rightarrow> nat \<Rightarrow> error + nat" where
  "combine_der_blocks [] sum_len = Inr sum_len"
| "combine_der_blocks (block # bs) sum_len =
     (case readTag block 0 of
        Inl e \<Rightarrow> Inl e
      | Inr block_info \<Rightarrow>
         if js_number (position block_info + length_blk block_info) = length block
         then combine_der_blocks bs (sum_len + length block)
         else Inl AssertionError)"

fun combine_der_check :: "Buffer list \<Rightarrow> error + unit" where
  "combine_der_check [] = Inr ()"
| "combine_der_check (cert # certs) =
     (case split_der cert of
        Inl e \<Rightarrow> Inl e
      | Inr b \<Rightarrow>
         (case combine_der_blocks b 0 of
            Inl e \<Rightarrow> Inl e
          | Inr sum_len \<Rightarrow> if sum_len = length cert then combine_der_check certs else Inl AssertionError))"

definition combine_der :: "Buffer list \<Rightarrow> error + Buffer" where
  "combine_der certificates =
     (case combine_der_check certificates of Inl e \<Rightarrow> Inl e | Inr u \<Rightarrow> Inr (concat certificates))"

subsection \<open>What the claims speak of\<close>

text \<open>
  The integer that a list of bytes denotes in big-endian order, most significant byte
  first: the reading of the long form of a TLV length.
\<close>

primrec be_nat :: "Buffer \<Rightarrow> nat" where
  "be_nat [] = 0"
| "be_nat (b # bs) = unat b * 256 ^ length bs + be_nat bs"

text \<open>
  A well-formed top-level block: its header reads, and the extent the header declares
  (header length plus value length) is the block itself. A Node.js buffer is shorter
  than \<open>2 ^ 53\<close> bytes.
\<close>

definition tlv_block :: "Buffer \<Rightarrow> bool" where
  "tlv_block b =
     (case readTag b 0 of
        Inl e \<Rightarrow> False
      | Inr bi \<Rightarrow> position bi + length_blk bi = length b \<and> length b < 2 ^ 53)"

section \<open>Parsed certificates (crypto_explore_certificate.ts, explore_certificate.ts)\<close>

text \<open>
  The fields of \<open>CertificateInternals\<close> that the certificate manager reads. A field
  typed \<open>string | null\<close> or declared optional is an \<open>option\<close>.

  A \<open>Date\<close> holds a time in milliseconds or is an Invalid Date, which is what
  \<open>convertUTCTime\<close> and \<open>convertGeneralizedTime\<close> build, without throwing, from a
  time string that is not made of digits. \<open>getTime()\<close> of an Invalid Date is \<open>NaN\<close>
  (\<open>None\<close>), and every comparison of \<open>NaN\<close> with a number is false.
\<close>

datatype Date = Date_at int | Invalid_Date

definition getTime :: "Date \<Rightarrow> int option" where
  "getTime d = (case d of Date_at t \<Rightarrow> Some t | Invalid_Date \<Rightarrow> None)"

definition js_greater :: "int option \<Rightarrow> int \<Rightarrow> bool" where
  "js_greater x t = (case x of None \<Rightarrow> False | Some v \<Rightarrow> v > t)"

definition js_less_eq :: "int option \<Rightarrow> int \<Rightarrow> bool" where
  "js_less_eq x t = (case x of None \<Rightarrow> False | Some v \<Rightarrow> v \<le> t)"

record AuthorityKeyIdentifier =
  keyIdentifier :: "string option"
  authorityCertIssuerFingerPrint :: string
  serial :: "string option"

record CertificateExtension =
  subjectKeyIdentifier :: "string option"
  authorityKeyIdentifier :: "AuthorityKeyIdentifier option"

record TbsCertificate =
  serialNumber :: string
  validity_notBefore :: Date
  validity_notAfter :: Date
  subject_commonName :: "string option"
  subjectFingerPrint :: string
  subjectPublicKeyInfo_keyLength :: nat
  extensions :: "CertificateExtension option"

record CertificateInternals =
  tbsCertificate :: TbsCertificate

record CertificateInfo =
  publicKeyLength :: nat
  notBefore :: Date
  notAfter :: Date

record RevokedCertificate =
  userCertificate :: string
  revocationDate :: Date

record TBSCertList =
  issuerFingerprint :: string
  revokedCertificates :: "RevokedCertificate list"

record CertificateRevocationListInfo =
  tbsCertList :: TBSCertList

text \<open>
  What the manager calls and this development does not look into: the X.509 and CRL
  decoders, SHA-1, the signature check of Node's \<open>crypto\<close>, PEM encoding, reading a
  CRL file, and the clock (\<open>new Date()\<close>, always a valid date). They are parameters;
  the decoders and the file reader may throw.
\<close>

record crypto =
  exploreCertificate :: "Buffer \<Rightarrow> error + CertificateInternals"
  makeFingerprint :: "Buffer \<Rightarrow> string"
  verifyCertificateSignature :: "Buffer \<Rightarrow> Buffer \<Rightarrow> error + bool"
  toPem :: "Buffer \<Rightarrow> string"
  readCertificateRevocationList :: "string \<Rightarrow> error + Buffer"
  exploreCertificateRevocationList :: "Buffer \<Rightarrow> error + CertificateRevocationListInfo"
  now :: int

text \<open>
  The value of an optional chain such as
  \<open>info.tbsCertificate.extensions?.authorityKeyIdentifier?.keyIdentifier\<close>:
  \<open>undefined\<close>, \<open>null\<close> or a string. \<open>===\<close> is equality of these values, and only a
  non-empty string is truthy.
\<close>

datatype js_string = Undefined | Null | Str string

definition truthy :: "js_string \<Rightarrow> bool" where
  "truthy v = (case v of Str s \<Rightarrow> s \<noteq> [] | Undefined \<Rightarrow> False | Null \<Rightarrow> False)"

definition extensions_subjectKeyIdentifier :: "CertificateInternals \<Rightarrow> js_string" where
  "extensions_subjectKeyIdentifier info =
     (case extensions (tbsCertificate info) of
        None \<Rightarrow> Undefined
      | Some ext \<Rightarrow> (case subjectKeyIdentifier ext of None \<Rightarrow> Undefined | Some s \<Rightarrow> Str s))"

definition extensions_authorityKeyIdentifier :: "CertificateInternals \<Rightarrow> AuthorityKeyIdentifier option" where
  "extensions_authorityKeyIdentifier info =
     (case extensions (tbsCertificate info) of
        None \<Rightarrow> None
      | Some ext \<Rightarrow> authorityKeyIdentifier ext)"

definition authorityKeyIdentifier_keyIdentifier :: "CertificateInternals \<Rightarrow> js_string" where
  "authorityKeyIdentifier_keyIdentifier info =
     (case extensions_authorityKeyIdentifier info of
        None \<Rightarrow> Undefined
      | Some aki \<Rightarrow> (case keyIdentifier aki of None \<Rightarrow> Null | Some s \<Rightarrow> Str s))"

definition authorityKeyIdentifier_serial :: "CertificateInternals \<Rightarrow> js_string" where
  "authorityKeyIdentifier_serial info =
     (case extensions_authorityKeyIdentifier info of
        None \<Rightarrow> Undefined
      | Some aki \<Rightarrow> (case serial aki of None \<Rightarrow> Null | Some s \<Rightarrow> Str s))"

definition authorityKeyIdentifier_authorityCertIssuerFingerPrint :: "CertificateInternals \<Rightarrow> js_string" where
  "authorityKeyIdentifier_authorityCertIssuerFingerPrint info =
     (case extensions_authorityKeyIdentifier info of
        None \<Rightarrow> Undefined
      | Some aki \<Rightarrow> Str (authorityCertIssuerFingerPrint aki))"

definition isSelfSigned2 :: "CertificateInternals \<Rightarrow> bool" where
  "isSelfSigned2 info =
     (extensions_subjectKeyIdentifier info = authorityKeyIdentifier_keyIdentifier info)"

definition isSelfSigned3 :: "crypto \<Rightarrow> Buffer \<Rightarrow> error + bool" where
  "isSelfSigned3 K certificate =
     (case exploreCertificate K certificate of
        Inl e \<Rightarrow> Inl e
      | Inr info \<Rightarrow> Inr (isSelfSigned2 info))"

text \<open>\<open>exploreCertificateInfo\<close> (the certificate is already a buffer).\<close>

definition exploreCertificateInfo :: "crypto \<Rightarrow> Buffer \<Rightarrow> error + CertificateInfo" where
  "exploreCertificateInfo K certificate =
     (case exploreCertificate K certificate of
        Inl e \<Rightarrow> Inl e
      | Inr certInfo \<Rightarrow>
         (let data = \<lparr>publicKeyLength = subjectPublicKeyInfo_keyLength (tbsCertificate certInfo),
                      notBefore = validity_notBefore (tbsCertificate certInfo),
                      notAfter = validity_notAfter (tbsCertificate certInfo)\<rparr>
          in if \<not> (publicKeyLength data = 512 \<or> publicKeyLength data = 384 \<or>
                    publicKeyLength data = 256 \<or> publicKeyLength data = 128)
             then Inl InvalidPublicKeyLength
             else Inr data))"

section \<open>The certificate manager (node-opcua-pki, certificate_manager.ts)\<close>

datatype VerificationStatus =
    BadCertificateInvalid
  | BadSecurityChecksFailed
  | BadCertificatePolicyCheckFailed
  | BadCertificateTimeInvalid
  | BadCertificateIssuerTimeInvalid
  | BadCertificateHostNameInvalid
  | BadCertificateUriInvalid
  | BadCertificateUseNotAllowed
  | BadCertificateIssuerUseNotAllowed
  | BadCertificateUntrusted
  | BadCertificateRevocationUnknown
  | BadCertificateIssuerRevocationUnknown
  | BadCertificateRevoked
  | BadCertificateIssuerRevoked
  | BadCertificateChainIncomplete
  | Good

datatype CertificateStatus = Unknown | Trusted | Rejected

record Entry =
  certificate :: Buffer
  filename :: string

record CRLEntry =
  crlInfo :: CertificateRevocationListInfo
  crl_filename :: string

record CRLData =
  serialNumbers :: "string \<rightharpoonup> Date"
  crls :: "CRLEntry list"

text \<open>
  The certificate indices are objects keyed by fingerprint whose \<open>Object.values\<close> are
  searched in insertion order: association lists. A key is looked up with \<open>map_of\<close>,
  and assigned with \<open>AList_update\<close> (in place when present, appended otherwise). The
  two CRL indices are only looked up by key: maps.
\<close>

definition AList_update :: "'k \<Rightarrow> 'v \<Rightarrow> ('k \<times> 'v) list \<Rightarrow> ('k \<times> 'v) list" where
  "AList_update k v al =
     (if k \<in> fst ` set al then map (\<lambda>(k', v'). if k' = k then (k', v) else (k', v')) al
      else al @ [(k, v)])"

record Thumbs =
  rejected :: "(string \<times> Entry) list"
  trusted :: "(string \<times> Entry) list"
  issuers_certs :: "(string \<times> Entry) list"
  crl :: "string \<rightharpoonup> CRLData"
  issuersCrl :: "string \<rightharpoonup> CRLData"

text \<open>
  The file system under the manager's folders: the content of each file, and the
  paths that cannot be written (\<open>fs.writeFile\<close> reports an error there).
\<close>

record FileSystem =
  file_content :: "string \<rightharpoonup> string"
  write_fails :: "string \<Rightarrow> bool"

definition fs_writeFile :: "FileSystem \<Rightarrow> string \<Rightarrow> string \<Rightarrow> error + FileSystem" where
  "fs_writeFile fs name data =
     (if write_fails fs name then Inl IOError
      else Inr (fs\<lparr>file_content := (file_content fs)(name \<mapsto> data)\<rparr>))"

text \<open>A queued CRL file names the index it goes to: \<open>_thumbs.crl\<close> or \<open>_thumbs.issuersCrl\<close>.\<close>

datatype crl_index = Index_crl | Index_issuersCrl

text \<open>
  The manager after \<open>initialize()\<close> and \<open>_readCertificates()\<close> have run: both return at
  once from then on, so the operations below start at the indices.
\<close>

record CertificateManager =
  untrustUnknownCertificate :: bool
  location :: string
  thumbs :: Thumbs
  fs :: FileSystem
  queue :: "(crl_index \<times> string) list"
  pending_crl_to_process :: int
  on_crl_process :: bool

text \<open>
  Node's \<open>path.join\<close> of two strings, as \<open>path.posix\<close> computes it: the non-empty
  arguments are joined with a slash and the result is normalised. \<open>normalizeString\<close>
  goes through the segments between slashes: an empty segment and \<open>.\<close> are dropped,
  \<open>..\<close> removes the segment before it (or stays, in a relative path, when there is
  none to remove), any other segment is kept.
\<close>

fun split_path :: "string \<Rightarrow> string list" where
  "split_path [] = [[]]"
| "split_path (c # cs) =
     (if c = CHR ''/'' then [] # split_path cs
      else case split_path cs of [] \<Rightarrow> [[c]] | seg # segs \<Rightarrow> (c # seg) # segs)"

fun join_segments :: "string list \<Rightarrow> string" where
  "join_segments [] = []"
| "join_segments [seg] = seg"
| "join_segments (seg # seg' # segs) = seg @ ''/'' @ join_segments (seg' # segs)"

definition normalize_segment :: "bool \<Rightarrow> string list \<Rightarrow> string \<Rightarrow> string list" where
  "normalize_segment allowAboveRoot res seg =
     (if seg = [] \<or> seg = ''.'' then res
      else if seg = ''..'' then
        (if res \<noteq> [] \<and> last res \<noteq> ''..'' then butlast res
         else if allowAboveRoot then res @ [''..'']
         else res)
      else res @ [seg])"

definition normalizeString :: "string \<Rightarrow> bool \<Rightarrow> string list" where
  "normalizeString path allowAboveRoot =
     foldl (normalize_segment allowAboveRoot) [] (split_path path)"

definition posix_normalize :: "string \<Rightarrow> string" where
  "posix_normalize path =
     (if path = [] then ''.''
      else let isAbsolute = (hd path = CHR ''/'');
               trailingSeparator = (last path = CHR ''/'');
               res = join_segments (normalizeString path (\<not> isAbsolute))
           in if res = [] then
                (if isAbsolute then ''/'' else if trailingSeparator then ''./'' else ''.'')
              else (if isAbsolute then ''/'' else []) @ res @
                   (if trailingSeparator then ''/'' else []))"

definition path_join :: "string \<Rightarrow> string \<Rightarrow> string" where
  "path_join a b =
     (if a = [] \<and> b = [] then ''.''
      else posix_normalize (if a = [] then b else if b = [] then a else a @ ''/'' @ b))"

text \<open>The getter \<open>rejectedFolder\<close>: \<open>path.join(this.rootDir, "rejected")\<close>.\<close>

definition rejectedFolder :: "CertificateManager \<Rightarrow> string" where
  "rejectedFolder m = path_join (location m) ''rejected''"

definition checkRejectedOrTrusted :: "crypto \<Rightarrow> CertificateManager \<Rightarrow> Buffer \<Rightarrow> CertificateStatus" where
  "checkRejectedOrTrusted K m cert =
     (let fingerprint = makeFingerprint K cert
      in if map_of (rejected (thumbs m)) fingerprint \<noteq> None then Rejected
         else if map_of (trusted (thumbs m)) fingerprint \<noteq> None then Trusted
         else Unknown)"

definition buildIdealCertificateName :: "crypto \<Rightarrow> Buffer \<Rightarrow> string" where
  "buildIdealCertificateName K cert =
     (let fingerprint = makeFingerprint K cert
      in case exploreCertificate K cert of
           Inl e \<Rightarrow> ''invalid_certificate_['' @ fingerprint @ '']''
         | Inr info \<Rightarrow>
            (case subject_commonName (tbsCertificate info) of None \<Rightarrow> [] | Some cn \<Rightarrow> cn)
              @ ''['' @ fingerprint @ '']'')"

text \<open>
  \<open>getCertificateStatus\<close>: what the callback receives, and the manager afterwards. The
  rejected index is assigned in the callback of \<open>fs.writeFile\<close> before its error is
  looked at.
\<close>

definition getCertificateStatus ::
  "crypto \<Rightarrow> CertificateManager \<Rightarrow> Buffer \<Rightarrow> (error + CertificateStatus) \<times> CertificateManager" where
  "getCertificateStatus K m cert =
     (let status = checkRejectedOrTrusted K m cert
      in if status = Unknown then
           (let pem = toPem K cert;
                fingerprint = makeFingerprint K cert;
                name = path_join (rejectedFolder m) (buildIdealCertificateName K cert @ ''.pem'');
                written = fs_writeFile (fs m) name pem;
                m' = m\<lparr>thumbs := (thumbs m)\<lparr>rejected :=
                         AList_update fingerprint \<lparr>certificate = cert, filename = name\<rparr>
                           (rejected (thumbs m))\<rparr>\<rparr>
            in case written of
                 Inl err \<Rightarrow> (Inl err, m')
               | Inr fs' \<Rightarrow> (Inr Rejected, m'\<lparr>fs := fs'\<rparr>))
         else (Inr status, m))"

text \<open>
  \<open>isCertificateTrusted\<close> answers with the strings \<open>"Good"\<close>, \<open>"BadCertificateInvalid"\<close>
  and \<open>"BadCertificateUntrusted"\<close>, which are values of \<open>VerificationStatus\<close>.
\<close>

definition isCertificateTrusted ::
  "crypto \<Rightarrow> CertificateManager \<Rightarrow> Buffer \<Rightarrow> (error + VerificationStatus) \<times> CertificateManager" where
  "isCertificateTrusted K m cert =
     (let fingerprint = makeFingerprint K cert
      in if map_of (trusted (thumbs m)) fingerprint \<noteq> None then (Inr Good, m)
         else if map_of (rejected (thumbs m)) fingerprint = None then
           (let certificateFilenameInRejected =
                  path_join (rejectedFolder m) (buildIdealCertificateName K cert @ ''.pem'')
            in if \<not> untrustUnknownCertificate m then (Inr Good, m)
               else case exploreCertificateInfo K cert of
                 Inl e \<Rightarrow> (Inr BadCertificateInvalid, m)
               | Inr certificateInfo \<Rightarrow>
                  (case fs_writeFile (fs m) certificateFilenameInRejected (toPem K cert) of
                     Inl err \<Rightarrow> (Inl err, m)
                   | Inr fs' \<Rightarrow> (Inr BadCertificateUntrusted, m\<lparr>fs := fs'\<rparr>)))
         else (Inr BadCertificateUntrusted, m))"

text \<open>\<open>findMatchingIssuerKey\<close>: a \<open>filter\<close> whose predicate decodes each entry.\<close>

fun findMatchingIssuerKey :: "crypto \<Rightarrow> Entry list \<Rightarrow> string \<Rightarrow> error + Entry list" where
  "findMatchingIssuerKey K [] wantedIssuerKey = Inr []"
| "findMatchingIssuerKey K (entry # entries) wantedIssuerKey =
     (case exploreCertificate K (certificate entry) of
        Inl e \<Rightarrow> Inl e
      | Inr info \<Rightarrow>
         (case findMatchingIssuerKey K entries wantedIssuerKey of
            Inl e \<Rightarrow> Inl e
          | Inr selected \<Rightarrow>
             if extensions (tbsCertificate info) \<noteq> None \<and>
                extensions_subjectKeyIdentifier info = Str wantedIssuerKey
             then Inr (entry # selected) else Inr selected))"

definition findIssuerCertificate ::
  "crypto \<Rightarrow> CertificateManager \<Rightarrow> Buffer \<Rightarrow> error + Buffer option" where
  "findIssuerCertificate K m cert =
     (case exploreCertificate K cert of
        Inl e \<Rightarrow> Inl e
      | Inr certInfo \<Rightarrow>
         if isSelfSigned2 certInfo then Inr (Some cert)
         else case authorityKeyIdentifier_keyIdentifier certInfo of
           Undefined \<Rightarrow> Inr None
         | Null \<Rightarrow> Inr None
         | Str wantedIssuerKey \<Rightarrow>
            if wantedIssuerKey = [] then Inr None
            else case findMatchingIssuerKey K (map snd (issuers_certs (thumbs m))) wantedIssuerKey of
              Inl e \<Rightarrow> Inl e
            | Inr selectedIssuerCertificates \<Rightarrow>
               (case selectedIssuerCertificates of
                  entry # others \<Rightarrow> Inr (Some (certificate entry))
                | [] \<Rightarrow>
                   (case findMatchingIssuerKey K (map snd (trusted (thumbs m))) wantedIssuerKey of
                      Inl e \<Rightarrow> Inl e
                    | Inr selectedTrustedCertificates \<Rightarrow>
                       (case selectedTrustedCertificates of
                          entry # others \<Rightarrow> Inr (Some (certificate entry))
                        | [] \<Rightarrow> Inr None))))"

definition findAssociatedCRLs ::
  "crypto \<Rightarrow> CertificateManager \<Rightarrow> Buffer \<Rightarrow> error + CRLData option" where
  "findAssociatedCRLs K m issuerCertificate =
     (case exploreCertificate K issuerCertificate of
        Inl e \<Rightarrow> Inl e
      | Inr issuerCertificateInfo \<Rightarrow>
         (let key = subjectFingerPrint (tbsCertificate issuerCertificateInfo)
          in case issuersCrl (thumbs m) key of
               Some d \<Rightarrow> Inr (Some d)
             | None \<Rightarrow> Inr (crl (thumbs m) key)))"

text \<open>
  The serial number that \<open>isCertificateRevoked\<close> looks up,
  \<open>serialNumber || extensions?.authorityKeyIdentifier?.serial || ""\<close>, and the key of
  the second index, \<open>...?.authorityCertIssuerFingerPrint || "<unknown>"\<close>.
\<close>

definition revocation_serialNumber :: "CertificateInternals \<Rightarrow> string" where
  "revocation_serialNumber certInfo =
     (if serialNumber (tbsCertificate certInfo) \<noteq> [] then serialNumber (tbsCertificate certInfo)
      else case authorityKeyIdentifier_serial certInfo of
        Str s \<Rightarrow> s
      | Undefined \<Rightarrow> []
      | Null \<Rightarrow> [])"

definition revocation_key :: "CertificateInternals \<Rightarrow> string" where
  "revocation_key certInfo =
     (case authorityKeyIdentifier_authorityCertIssuerFingerPrint certInfo of
        Str s \<Rightarrow> if s \<noteq> [] then s else ''<unknown>''
      | Undefined \<Rightarrow> ''<unknown>''
      | Null \<Rightarrow> ''<unknown>'')"

definition isCertificateRevoked ::
  "crypto \<Rightarrow> CertificateManager \<Rightarrow> Buffer \<Rightarrow> Buffer option \<Rightarrow> error + VerificationStatus" where
  "isCertificateRevoked K m cert issuerCertificate =
     (case isSelfSigned3 K cert of
        Inl e \<Rightarrow> Inl e
      | Inr True \<Rightarrow> Inr Good
      | Inr False \<Rightarrow>
         (case (case issuerCertificate of
                  Some ic \<Rightarrow> Inr (Some ic)
                | None \<Rightarrow> findIssuerCertificate K m cert) of
            Inl e \<Rightarrow> Inl e
          | Inr None \<Rightarrow> Inr BadCertificateChainIncomplete
          | Inr (Some ic) \<Rightarrow>
             (case findAssociatedCRLs K m ic of
                Inl e \<Rightarrow> Inl e
              | Inr None \<Rightarrow> Inr BadCertificateRevocationUnknown
              | Inr (Some crls_found) \<Rightarrow>
                 (case exploreCertificate K cert of
                    Inl e \<Rightarrow> Inl e
                  | Inr certInfo \<Rightarrow>
                     (let serial_no = revocation_serialNumber certInfo;
                          crl2 = crl (thumbs m) (revocation_key certInfo)
                      in if serialNumbers crls_found serial_no \<noteq> None \<or>
                            (case crl2 of
                               None \<Rightarrow> False
                             | Some d \<Rightarrow> serialNumbers d serial_no \<noteq> None)
                         then Inr BadCertificateRevoked
                         else Inr Good)))))"

subsection \<open>Chain verification\<close>

text \<open>
  \<open>_innerVerifyCertificateAsync\<close> is the depth guard and the decoding of the first
  certificate of the chain, then the block \<open>if (hasIssuerKey) { ... }\<close>
  (\<open>chain_checks\<close>), then the rest of the method (\<open>final_verdict\<close>). The block either
  returns a verdict or goes on with the two flags \<open>hasValidIssuer\<close> and
  \<open>hasTrustedIssuer\<close>; its recursive call is the argument \<open>verify_issuer\<close>. In the
  self-signed branch the revocation status is computed and only logged.
\<close>

datatype progress = Return VerificationStatus | Continue bool bool

definition chain_checks ::
  "crypto \<Rightarrow> CertificateManager \<Rightarrow> Buffer \<Rightarrow> Buffer \<Rightarrow> CertificateInternals \<Rightarrow>
   (Buffer \<Rightarrow> error + VerificationStatus) \<Rightarrow> error + progress" where
  "chain_checks K m cert chain0 info verify_issuer =
     (if truthy (authorityKeyIdentifier_keyIdentifier info) then
        (if \<not> isSelfSigned2 info then
           (case findIssuerCertificate K m chain0 of
              Inl e \<Rightarrow> Inl e
            | Inr None \<Rightarrow> Inr (Return BadSecurityChecksFailed)
            | Inr (Some issuerCertificate) \<Rightarrow>
               (case verify_issuer issuerCertificate of
                  Inl e \<Rightarrow> Inl e
                | Inr issuerStatus \<Rightarrow>
                   if issuerStatus = BadCertificateRevocationUnknown then
                     Inr (Return BadCertificateIssuerRevocationUnknown)
                   else if issuerStatus = BadCertificateIssuerRevocationUnknown then
                     Inr (Return BadCertificateIssuerRevocationUnknown)
                   else if issuerStatus = BadCertificateTimeInvalid then
                     Inr (Return BadCertificateIssuerTimeInvalid)
                   else if issuerStatus \<noteq> Good \<and> issuerStatus \<noteq> BadCertificateUntrusted then
                     Inr (Return BadSecurityChecksFailed)
                   else case verifyCertificateSignature K cert issuerCertificate of
                     Inl e \<Rightarrow> Inl e
                   | Inr isCertificateSignatureOK \<Rightarrow>
                      if \<not> isCertificateSignatureOK then Inr (Return BadSecurityChecksFailed)
                      else case isCertificateRevoked K m cert None of
                        Inl e \<Rightarrow> Inl e
                      | Inr revokedStatus \<Rightarrow>
                         if revokedStatus = BadCertificateRevocationUnknown then
                           Inr (Return BadCertificateRevocationUnknown)
                         else if revokedStatus \<noteq> Good then Inr (Return revokedStatus)
                         else case checkRejectedOrTrusted K m issuerCertificate of
                           Unknown \<Rightarrow> Inr (Continue True False)
                         | Trusted \<Rightarrow> Inr (Continue True True)
                         | Rejected \<Rightarrow> Inr (Return BadSecurityChecksFailed)))
         else
           (case verifyCertificateSignature K cert cert of
              Inl e \<Rightarrow> Inl e
            | Inr isCertificateSignatureOK \<Rightarrow>
               if \<not> isCertificateSignatureOK then Inr (Return BadSecurityChecksFailed)
               else case isCertificateRevoked K m cert None of
                 Inl e \<Rightarrow> Inl e
               | Inr revokedStatus \<Rightarrow> Inr (Continue False False)))
      else Inr (Continue False False))"

definition isTimeInvalid :: "CertificateInfo \<Rightarrow> int \<Rightarrow> bool" where
  "isTimeInvalid certificateInfo now_time =
     (js_greater (getTime (notBefore certificateInfo)) now_time \<or>
      js_less_eq (getTime (notAfter certificateInfo)) now_time)"

text \<open>
  From \<open>const status = await this._checkRejectedOrTrusted(certificate)\<close> to the end;
  \<open>others\<close> is the chain after its first certificate (\<open>chain[1]\<close> is decoded when it
  exists).
\<close>

definition final_verdict ::
  "crypto \<Rightarrow> CertificateManager \<Rightarrow> Buffer \<Rightarrow> Buffer list \<Rightarrow> bool \<Rightarrow> bool \<Rightarrow> bool \<Rightarrow>
   error + VerificationStatus" where
  "final_verdict K m cert others hasIssuerKey hasValidIssuer hasTrustedIssuer =
     (let status = checkRejectedOrTrusted K m cert
      in if status = Rejected then Inr BadCertificateUntrusted
         else case (case others of
                      [] \<Rightarrow> Inr ()
                    | c2 # cs \<Rightarrow> map_sum id (\<lambda>i. ()) (exploreCertificateInfo K c2)) of
           Inl e \<Rightarrow> Inl e
         | Inr u \<Rightarrow>
            (case exploreCertificateInfo K cert of
               Inl e \<Rightarrow> Inl e
             | Inr certificateInfo \<Rightarrow>
                (let timeInvalid = isTimeInvalid certificateInfo (now K)
                 in if status = Trusted then
                      Inr (if timeInvalid then BadCertificateTimeInvalid else Good)
                    else if hasIssuerKey then
                      (if \<not> hasTrustedIssuer then Inr BadCertificateUntrusted
                       else if \<not> hasValidIssuer then Inr BadCertificateUntrusted
                       else Inr (if timeInvalid then BadCertificateTimeInvalid else Good))
                    else Inr BadCertificateUntrusted)))"

function innerVerifyCertificateAsync ::
  "crypto \<Rightarrow> CertificateManager \<Rightarrow> Buffer \<Rightarrow> bool \<Rightarrow> nat \<Rightarrow> error + VerificationStatus" where
  "innerVerifyCertificateAsync K m cert isIssuer level =
     (if level \<ge> 5 then Inr BadSecurityChecksFailed
      else case split_der cert of
        Inl e \<Rightarrow> Inl e
      | Inr [] \<Rightarrow> Inl AssertionError
      | Inr (chain0 # others) \<Rightarrow>
         (case exploreCertificate K chain0 of
            Inl e \<Rightarrow> Inl e
          | Inr info \<Rightarrow>
             (case chain_checks K m cert chain0 info
                     (\<lambda>issuerCertificate.
                        innerVerifyCertificateAsync K m issuerCertificate True (level + 1)) of
                Inl e \<Rightarrow> Inl e
              | Inr (Return verdict) \<Rightarrow> Inr verdict
              | Inr (Continue hasValidIssuer hasTrustedIssuer) \<Rightarrow>
                 final_verdict K m cert others
                   (truthy (authorityKeyIdentifier_keyIdentifier info))
                   hasValidIssuer hasTrustedIssuer)))"
  by pat_completeness auto
termination
  by (relation "measure (\<lambda>(K, m, cert, isIssuer, level). 5 - level)") auto

declare innerVerifyCertificateAsync.simps [simp del]

definition verifyCertificateAsync ::
  "crypto \<Rightarrow> CertificateManager \<Rightarrow> Buffer \<Rightarrow> error + VerificationStatus" where
  "verifyCertificateAsync K m cert = innerVerifyCertificateAsync K m cert False 0"

text \<open>
  \<open>verifyCertificate\<close>: the certificate may be \<open>null\<close> or missing (\<open>None\<close>); a buffer is
  always truthy. The result is what the callback receives.
\<close>

definition verifyCertificate ::
  "crypto \<Rightarrow> CertificateManager \<Rightarrow> Buffer option \<Rightarrow> error + VerificationStatus" where
  "verifyCertificate K m cert =
     (case cert of
        None \<Rightarrow> Inr BadSecurityChecksFailed
      | Some c \<Rightarrow> verifyCertificateAsync K m c)"

subsection \<open>The CRL queue\<close>

definition get_index :: "crl_index \<Rightarrow> CertificateManager \<Rightarrow> (string \<rightharpoonup> CRLData)" where
  "get_index ix m = (case ix of Index_crl \<Rightarrow> crl (thumbs m) | Index_issuersCrl \<Rightarrow> issuersCrl (thumbs m))"

definition set_index :: "crl_index \<Rightarrow> (string \<rightharpoonup> CRLData) \<Rightarrow> CertificateManager \<Rightarrow> CertificateManager" where
  "set_index ix v m =
     (case ix of
        Index_crl \<Rightarrow> m\<lparr>thumbs := (thumbs m)\<lparr>crl := v\<rparr>\<rparr>
      | Index_issuersCrl \<Rightarrow> m\<lparr>thumbs := (thumbs m)\<lparr>issuersCrl := v\<rparr>\<rparr>)"

text \<open>
  The loop \<open>for (const revokedCertificate of crlInfo.tbsCertList.revokedCertificates)\<close>.
  A stored date is an object, hence truthy: \<open>!serialNumbers[serialNumber]\<close> holds exactly
  when the serial number has no entry.
\<close>

fun inject_serialNumbers ::
  "RevokedCertificate list \<Rightarrow> (string \<rightharpoonup> Date) \<Rightarrow> (string \<rightharpoonup> Date)" where
  "inject_serialNumbers [] sn = sn"
| "inject_serialNumbers (revokedCertificate # rs) sn =
     inject_serialNumbers rs
       (if sn (userCertificate revokedCertificate) = None
        then sn(userCertificate revokedCertificate \<mapsto> revocationDate revokedCertificate)
        else sn)"

text \<open>The \<open>try\<close> block of \<open>_process_next_crl\<close> for the item taken off the queue.\<close>

definition process_crl_item ::
  "crypto \<Rightarrow> CertificateManager \<Rightarrow> crl_index \<Rightarrow> string \<Rightarrow> error + CertificateManager" where
  "process_crl_item K m ix name =
     (case readCertificateRevocationList K name of
        Inl e \<Rightarrow> Inl e
      | Inr crl_buffer \<Rightarrow>
         (case exploreCertificateRevocationList K crl_buffer of
            Inl e \<Rightarrow> Inl e
          | Inr info \<Rightarrow>
             (let fingerprint = issuerFingerprint (tbsCertList info);
                  index = get_index ix m;
                  d = (case index fingerprint of
                         Some d \<Rightarrow> d
                       | None \<Rightarrow> \<lparr>serialNumbers = Map.empty, crls = []\<rparr>);
                  d1 = d\<lparr>crls := crls d @ [\<lparr>crlInfo = info, crl_filename = name\<rparr>]\<rparr>;
                  d2 = d1\<lparr>serialNumbers :=
                           inject_serialNumbers (revokedCertificates (tbsCertList info)) (serialNumbers d1)\<rparr>
              in Inr (set_index ix (index(fingerprint \<mapsto> d2)) m))))"

text \<open>
  \<open>_process_next_crl\<close>. \<open>queue.shift()\<close> of an empty queue gives \<open>undefined\<close>, whose
  destructuring throws inside the \<open>try\<close>; every exception of the block is caught and
  logged. Then the counter goes down and, unless it is zero, the method calls itself:
  it need not return, so its result is an \<open>option\<close>.
\<close>

definition process_crl_step :: "crypto \<Rightarrow> CertificateManager \<Rightarrow> CertificateManager" where
  "process_crl_step K m =
     (let m1 = (case queue m of
                  [] \<Rightarrow> m
                | (ix, name) # rest \<Rightarrow>
                   (case process_crl_item K (m\<lparr>queue := rest\<rparr>) ix name of
                      Inl e \<Rightarrow> m\<lparr>queue := rest\<rparr>
                    | Inr m' \<Rightarrow> m'))
      in m1\<lparr>pending_crl_to_process := pending_crl_to_process m1 - 1\<rparr>)"

partial_function (option) process_next_crl :: "crypto \<Rightarrow> CertificateManager \<Rightarrow> CertificateManager option" where
  "process_next_crl K m =
     (let m2 = process_crl_step K m
      in if pending_crl_to_process m2 = 0 then
           Some (if on_crl_process m2 then m2\<lparr>on_crl_process := False\<rparr> else m2)
         else process_next_crl K m2)"

text \<open>\<open>_on_crl_file_added\<close>: enqueue, count, and start the worker when it was idle.\<close>

definition on_crl_file_added ::
  "crypto \<Rightarrow> CertificateManager \<Rightarrow> crl_index \<Rightarrow> string \<Rightarrow> CertificateManager option" where
  "on_crl_file_added K m ix name =
     (let m1 = m\<lparr>queue := queue m @ [(ix, name)],
                  pending_crl_to_process := pending_crl_to_process m + 1\<rparr>
      in if pending_crl_to_process m1 = 1 then process_next_crl K m1 else Some m1)"

subsection \<open>Issuer chains\<close>

text \<open>
  \<open>issuer_links K m cert n\<close>: starting at \<open>cert\<close>, the manager can follow \<open>n\<close> issuer
  links in a row. Each certificate on the way decodes, names an issuer key, is not
  self-signed, and its issuer is found in the store. Nothing keeps the links from
  running in a circle.
\<close>

fun issuer_links :: "crypto \<Rightarrow> CertificateManager \<Rightarrow> Buffer \<Rightarrow> nat \<Rightarrow> bool" where
  "issuer_links K m cert 0 = True"
| "issuer_links K m cert (Suc n) =
     (case split_der cert of
        Inl e \<Rightarrow> False
      | Inr [] \<Rightarrow> False
      | Inr (chain0 # others) \<Rightarrow>
         (case exploreCertificate K chain0 of
            Inl e \<Rightarrow> False
          | Inr info \<Rightarrow>
             truthy (authorityKeyIdentifier_keyIdentifier info) \<and> \<not> isSelfSigned2 info \<and>
             (case findIssuerCertificate K m chain0 of
                Inl e \<Rightarrow> False
              | Inr None \<Rightarrow> False
              | Inr (Some issuerCertificate) \<Rightarrow> issuer_links K m issuerCertificate n)))"

subsection \<open>Store membership\<close>

text \<open>
  A certificate is in the trusted (rejected) map when its fingerprint is a key there;
  the certificates of a chain after the first decode when \<open>chain[1]\<close>, if there is
  one, passes \<open>exploreCertificateInfo\<close>.
\<close>

definition in_trusted :: "crypto \<Rightarrow> CertificateManager \<Rightarrow> Buffer \<Rightarrow> bool" where
  "in_trusted K m cert = (makeFingerprint K cert \<in> fst ` set (trusted (thumbs m)))"

definition in_rejected :: "crypto \<Rightarrow> CertificateManager \<Rightarrow> Buffer \<Rightarrow> bool" where
  "in_rejected K m cert = (makeFingerprint K cert \<in> fst ` set (rejected (thumbs m)))"

definition rest_decodes :: "crypto \<Rightarrow> Buffer list \<Rightarrow> bool" where
  "rest_decodes K others =
     (case others of
        [] \<Rightarrow> True
      | c2 # cs \<Rightarrow> (case exploreCertificateInfo K c2 of Inl e \<Rightarrow> False | Inr i \<Rightarrow> True))"

subsection \<open>The validity period\<close>

text \<open>
  \<open>in_half_open_period notBefore notAfter t\<close> is \<open>notBefore \<le> t < notAfter\<close> read as two
  comparisons of times, neither of which holds of the \<open>NaN\<close> of an Invalid Date.
  \<open>within_validity notBefore notAfter t\<close> is the same period when both bounds are valid
  dates; a bound that is an Invalid Date bounds nothing.
\<close>

definition in_half_open_period :: "Date \<Rightarrow> Date \<Rightarrow> int \<Rightarrow> bool" where
  "in_half_open_period nb na t =
     (case nb of
        Invalid_Date \<Rightarrow> False
      | Date_at b \<Rightarrow> (case na of Invalid_Date \<Rightarrow> False | Date_at a \<Rightarrow> b \<le> t \<and> t < a))"

fun within_validity :: "Date \<Rightarrow> Date \<Rightarrow> int \<Rightarrow> bool" where
  "within_validity (Date_at b) (Date_at a) t = (b \<le> t \<and> t < a)"
| "within_validity (Date_at b) Invalid_Date t = (b \<le> t)"
| "within_validity Invalid_Date (Date_at a) t = (t < a)"
| "within_validity Invalid_Date Invalid_Date t = True"

subsection \<open>Revocation lookups\<close>

text \<open>
  What \<open>isCertificateRevoked\<close> compares and looks up, read off the fields of the decoded
  certificate. \<open>same_key_identifiers\<close>: the subject key identifier equals the key
  identifier of the authority key identifier, two absent values being equal as well
  (a certificate without extensions, or with neither of the two extensions), while an
  authority key identifier without key identifier equals nothing. \<open>serial_looked_up\<close>:
  the serial number of the certificate or, when that is empty, the serial number that
  its authority key identifier names, if any. \<open>direct_index_key\<close>: the issuer
  fingerprint that the authority key identifier names, or \<open><unknown>\<close> when it names
  none.
\<close>

definition same_key_identifiers :: "CertificateInternals \<Rightarrow> bool" where
  "same_key_identifiers info =
     (case extensions (tbsCertificate info) of
        None \<Rightarrow> True
      | Some ext \<Rightarrow>
         (case authorityKeyIdentifier ext of
            None \<Rightarrow> subjectKeyIdentifier ext = None
          | Some aki \<Rightarrow>
             subjectKeyIdentifier ext \<noteq> None \<and> subjectKeyIdentifier ext = keyIdentifier aki))"

definition serial_looked_up :: "CertificateInternals \<Rightarrow> string" where
  "serial_looked_up info =
     (if serialNumber (tbsCertificate info) \<noteq> [] then serialNumber (tbsCertificate info)
      else case extensions (tbsCertificate info) of
        None \<Rightarrow> []
      | Some ext \<Rightarrow>
         (case authorityKeyIdentifier ext of
            None \<Rightarrow> []
          | Some aki \<Rightarrow> (case serial aki of None \<Rightarrow> [] | Some s \<Rightarrow> s)))"

definition direct_index_key :: "CertificateInternals \<Rightarrow> string" where
  "direct_index_key info =
     (case extensions (tbsCertificate info) of
        None \<Rightarrow> ''<unknown>''
      | Some ext \<Rightarrow>
         (case authorityKeyIdentifier ext of
            None \<Rightarrow> ''<unknown>''
          | Some aki \<Rightarrow>
             if authorityCertIssuerFingerPrint aki = [] then ''<unknown>''
             else authorityCertIssuerFingerPrint aki))"

subsection \<open>File names\<close>

text \<open>
  \<open>plain_file_name name\<close>: the name has no path separator in it, so that it names a
  file of the folder it is joined to.
\<close>

definition plain_file_name :: "string \<Rightarrow> bool" where
  "plain_file_name name = (CHR ''/'' \<notin> set name)"

text \<open>
  \<open>normal_segments allowAboveRoot segs\<close>: the segments of a path in normal form. None
  is empty or \<open>.\<close>, and \<open>..\<close> comes only at the front, and only where the path may
  climb above its root (a relative path).
\<close>

definition normal_segments :: "bool \<Rightarrow> string list \<Rightarrow> bool" where
  "normal_segments allowAboveRoot segs =
     (let rest = dropWhile (\<lambda>s. s = ''..'') segs
      in (rest = segs \<or> allowAboveRoot) \<and>
         (\<forall>s \<in> set rest. s \<noteq> [] \<and> s \<noteq> ''.'' \<and> s \<noteq> ''..''))"

subsection \<open>Revocation entries\<close>

text \<open>
  \<open>revocation_date ix m fingerprint s\<close>: the date that the CRL index \<open>ix\<close> of \<open>m\<close> holds
  for the serial number \<open>s\<close> under the issuer fingerprint, if any.
  \<open>listed_dates K items ix fingerprint s\<close>: the revocation dates given to \<open>s\<close> by the
  queued files, in the order of the queue and then of the entries of each CRL, taking
  the files queued for the index \<open>ix\<close> that read and decode to a CRL of that issuer.
  \<open>first_date\<close> is the first of such a list.
\<close>

definition revocation_date ::
  "crl_index \<Rightarrow> CertificateManager \<Rightarrow> string \<Rightarrow> string \<Rightarrow> Date option" where
  "revocation_date ix m fingerprint s =
     (case (case ix of
              Index_crl \<Rightarrow> crl (thumbs m) fingerprint
            | Index_issuersCrl \<Rightarrow> issuersCrl (thumbs m) fingerprint) of
        None \<Rightarrow> None
      | Some d \<Rightarrow> serialNumbers d s)"

definition item_dates ::
  "crypto \<Rightarrow> crl_index \<times> string \<Rightarrow> crl_index \<Rightarrow> string \<Rightarrow> string \<Rightarrow> Date list" where
  "item_dates K item ix fingerprint s =
     (case item of (ix', name) \<Rightarrow>
        if ix' \<noteq> ix then []
        else case readCertificateRevocationList K name of
          Inl e \<Rightarrow> []
        | Inr crl_buffer \<Rightarrow>
           (case exploreCertificateRevocationList K crl_buffer of
              Inl e \<Rightarrow> []
            | Inr info \<Rightarrow>
               if issuerFingerprint (tbsCertList info) \<noteq> fingerprint then []
               else map revocationDate
                      (filter (\<lambda>r. userCertificate r = s)
                         (revokedCertificates (tbsCertList info)))))"

definition listed_dates ::
  "crypto \<Rightarrow> (crl_index \<times> string) list \<Rightarrow> crl_index \<Rightarrow> string \<Rightarrow> string \<Rightarrow> Date list" where
  "listed_dates K items ix fingerprint s =
     concat (map (\<lambda>item. item_dates K item ix fingerprint s) items)"

definition first_date :: "Date list \<Rightarrow> Date option" where
  "first_date ds = (case ds of [] \<Rightarrow> None | d # rest \<Rightarrow> Some d)"

text \<open>
  \<open>entries_kept m m'\<close>: every serial number bound to a revocation date in \<open>m\<close>, in
  either CRL index and under any issuer fingerprint, is bound to the same date in
  \<open>m'\<close>. \<open>listed_serials_bound K item m'\<close>: if the queued file reads and decodes, every
  serial number its CRL lists is bound in \<open>m'\<close>, in the index the item names and under
  the CRL's issuer fingerprint.
\<close>

definition entries_kept :: "CertificateManager \<Rightarrow> CertificateManager \<Rightarrow> bool" where
  "entries_kept m m' =
     (\<forall>ix fingerprint d s date.
        get_index ix m fingerprint = Some d \<and> serialNumbers d s = Some date \<longrightarrow>
        (\<exists>d'. get_index ix m' fingerprint = Some d' \<and> serialNumbers d' s = Some date))"

definition listed_serials_bound ::
  "crypto \<Rightarrow> crl_index \<times> string \<Rightarrow> CertificateManager \<Rightarrow> bool" where
  "listed_serials_bound K item m' =
     (case item of (ix, name) \<Rightarrow>
        (case readCertificateRevocationList K name of
           Inl e \<Rightarrow> True
         | Inr crl_buffer \<Rightarrow>
            (case exploreCertificateRevocationList K crl_buffer of
               Inl e \<Rightarrow> True
             | Inr info \<Rightarrow>
                (\<forall>r \<in> set (revokedCertificates (tbsCertList info)).
                   \<exists>d'. get_index ix m' (issuerFingerprint (tbsCertList info)) = Some d' \<and>
                        userCertificate r \<in> dom (serialNumbers d')))))"

section \<open>An example store\<close>

text \<open>
  Certificates are three-byte blocks told apart by their last byte; the decoder is a
  table. Certificate 1 is a self-signed root with a CRL that revokes serial
  \<open>01:02:03\<close>; 2 and 3 are issued by it; 4 and 6 are version-1 certificates without
  extensions (6 has expired); 5 names an issuer that is not in the store; 7 is a second
  self-signed root, without a CRL, that issued 8, which issued 9, which issued 10;
  11 and 12 name each other as issuer; 13 is a version-1 certificate. Certificate 14
  is a version-1 certificate whose \<open>notAfter\<close> did not parse (an Invalid Date); 15 is
  a version-1 certificate with the revoked serial \<open>01:02:03\<close>; 16, 17 and 18 are issued
  by root 1: 16 has an empty serial number and names the serial \<open>01:02:03\<close> in its
  authority key identifier, 17 and 18 have the serial \<open>0C\<close>, and 18 alone names the
  fingerprint of root 1 in its authority key identifier; 19 has the common name
  \<open>../trusted/certs/x\<close>. The PKI lives in the folder \<open>pki\<close>. The trusted folder holds
  1, 4, 5, 6, 7 and 14, the issuers folder 1, 7, 8, 9, 11 and 12, the rejected folder
  nothing. The CRL index of the issuers folder revokes \<open>01:02:03\<close> for root 1 (at 50),
  the direct CRL index revokes \<open>0C\<close> for root 1 (at 60). Every signature verifies and
  the clock reads 100. Two CRL files of root 1 can be read: \<open>a.crl\<close> lists \<open>01:02:03\<close>
  (at 70) and \<open>0A\<close> (at 71 and again at 72), \<open>b.crl\<close> lists \<open>0A\<close> (at 90) and \<open>0B\<close>
  (at 91); any other file fails to read.
\<close>

definition example_cert :: "byte \<Rightarrow> Buffer" where
  "example_cert x = [0x30, 0x01, x]"

definition example_info ::
  "string \<Rightarrow> string \<Rightarrow> string \<Rightarrow> string \<Rightarrow> int \<Rightarrow> CertificateInternals" where
  "example_info sn ski aki subject na =
     \<lparr>tbsCertificate =
        \<lparr>serialNumber = sn, validity_notBefore = Date_at 0, validity_notAfter = Date_at na,
         subject_commonName = Some subject, subjectFingerPrint = subject,
         subjectPublicKeyInfo_keyLength = 256,
         extensions = Some \<lparr>subjectKeyIdentifier = Some ski,
                             authorityKeyIdentifier =
                               Some \<lparr>keyIdentifier = Some aki,
                                     authorityCertIssuerFingerPrint = [],
                                     serial = None\<rparr>\<rparr>\<rparr>\<rparr>"

definition example_info_v1 :: "string \<Rightarrow> string \<Rightarrow> int \<Rightarrow> CertificateInternals" where
  "example_info_v1 sn subject na =
     \<lparr>tbsCertificate =
        \<lparr>serialNumber = sn, validity_notBefore = Date_at 0, validity_notAfter = Date_at na,
         subject_commonName = Some subject, subjectFingerPrint = subject,
         subjectPublicKeyInfo_keyLength = 256,
         extensions = None\<rparr>\<rparr>"

definition example_info_undated :: "string \<Rightarrow> string \<Rightarrow> CertificateInternals" where
  "example_info_undated sn subject =
     \<lparr>tbsCertificate =
        \<lparr>serialNumber = sn, validity_notBefore = Date_at 0, validity_notAfter = Invalid_Date,
         subject_commonName = Some subject, subjectFingerPrint = subject,
         subjectPublicKeyInfo_keyLength = 256,
         extensions = None\<rparr>\<rparr>"

definition example_info_aki ::
  "string \<Rightarrow> string \<Rightarrow> AuthorityKeyIdentifier \<Rightarrow> string \<Rightarrow> CertificateInternals" where
  "example_info_aki sn ski aki subject =
     \<lparr>tbsCertificate =
        \<lparr>serialNumber = sn, validity_notBefore = Date_at 0, validity_notAfter = Date_at 1000,
         subject_commonName = Some subject, subjectFingerPrint = subject,
         subjectPublicKeyInfo_keyLength = 256,
         extensions = Some \<lparr>subjectKeyIdentifier = Some ski,
                             authorityKeyIdentifier = Some aki\<rparr>\<rparr>\<rparr>"

definition example_info_named :: "string \<Rightarrow> string \<Rightarrow> string \<Rightarrow> CertificateInternals" where
  "example_info_named sn commonName fingerprint =
     \<lparr>tbsCertificate =
        \<lparr>serialNumber = sn, validity_notBefore = Date_at 0, validity_notAfter = Date_at 1000,
         subject_commonName = Some commonName, subjectFingerPrint = fingerprint,
         subjectPublicKeyInfo_keyLength = 256,
         extensions = None\<rparr>\<rparr>"

definition example_certs :: "(Buffer \<times> CertificateInternals) list" where
  "example_certs =
     [(example_cert 1, example_info ''01'' ''R'' ''R'' ''FR'' 1000),
      (example_cert 2, example_info ''01:02:03'' ''L'' ''R'' ''FL'' 1000),
      (example_cert 3, example_info ''0A'' ''O'' ''R'' ''FO'' 1000),
      (example_cert 4, example_info_v1 ''04'' ''FP'' 1000),
      (example_cert 5, example_info ''05'' ''X'' ''Z'' ''FX'' 1000),
      (example_cert 6, example_info_v1 ''06'' ''FE'' 50),
      (example_cert 7, example_info ''07'' ''R2'' ''R2'' ''FR2'' 1000),
      (example_cert 8, example_info ''08'' ''D2'' ''R2'' ''FD2'' 1000),
      (example_cert 9, example_info ''09'' ''D1'' ''D2'' ''FD1'' 1000),
      (example_cert 10, example_info ''10'' ''D0'' ''D1'' ''FD0'' 1000),
      (example_cert 11, example_info ''11'' ''CA'' ''CB'' ''FCA'' 1000),
      (example_cert 12, example_info ''12'' ''CB'' ''CA'' ''FCB'' 1000),
      (example_cert 13, example_info_v1 ''13'' ''FU'' 1000),
      (example_cert 14, example_info_undated ''14'' ''FI''),
      (example_cert 15, example_info_v1 ''01:02:03'' ''FV'' 1000),
      (example_cert 16,
       example_info_aki [] ''E''
         \<lparr>keyIdentifier = Some ''R'', authorityCertIssuerFingerPrint = [],
          serial = Some ''01:02:03''\<rparr> ''FS''),
      (example_cert 17, example_info ''0C'' ''W'' ''R'' ''FW'' 1000),
      (example_cert 18,
       example_info_aki ''0C'' ''Y''
         \<lparr>keyIdentifier = Some ''R'', authorityCertIssuerFingerPrint = ''FR'',
          serial = None\<rparr> ''FY''),
      (example_cert 19, example_info_named ''19'' ''../trusted/certs/x'' ''FT'')]"

definition example_crl :: "(string \<times> int) list \<Rightarrow> CertificateRevocationListInfo" where
  "example_crl revoked =
     \<lparr>tbsCertList =
        \<lparr>issuerFingerprint = ''FR'',
         revokedCertificates =
           map (\<lambda>(s, d). \<lparr>userCertificate = s, revocationDate = Date_at d\<rparr>) revoked\<rparr>\<rparr>"

definition example_crypto :: crypto where
  "example_crypto =
     \<lparr>exploreCertificate =
        (\<lambda>c. case map_of example_certs c of None \<Rightarrow> Inl ParseError | Some i \<Rightarrow> Inr i),
      makeFingerprint =
        (\<lambda>c. case map_of example_certs c of
                None \<Rightarrow> ''??''
              | Some i \<Rightarrow> subjectFingerPrint (tbsCertificate i)),
      verifyCertificateSignature = (\<lambda>c p. Inr True),
      toPem = (\<lambda>c. ''PEM''),
      readCertificateRevocationList =
        (\<lambda>f. if f = ''a.crl'' then Inr [0x0A] else if f = ''b.crl'' then Inr [0x0B]
             else Inl IOError),
      exploreCertificateRevocationList =
        (\<lambda>c. if c = [0x0A] then Inr (example_crl [(''01:02:03'', 70), (''0A'', 71), (''0A'', 72)])
             else if c = [0x0B] then Inr (example_crl [(''0A'', 90), (''0B'', 91)])
             else Inl ParseError),
      now = 100\<rparr>"

definition example_entry :: "byte \<Rightarrow> string \<times> Entry" where
  "example_entry x =
     (makeFingerprint example_crypto (example_cert x),
      \<lparr>certificate = example_cert x, filename = ''f''\<rparr>)"

definition example_manager :: CertificateManager where
  "example_manager =
     \<lparr>untrustUnknownCertificate = True,
      location = ''pki'',
      thumbs =
        \<lparr>rejected = [],
         trusted = [example_entry 1, example_entry 4, example_entry 5, example_entry 6,
                    example_entry 7, example_entry 14],
         issuers_certs = [example_entry 1, example_entry 7, example_entry 8, example_entry 9,
                          example_entry 11, example_entry 12],
         crl = [''FR'' \<mapsto> \<lparr>serialNumbers = [''0C'' \<mapsto> Date_at 60], crls = []\<rparr>],
         issuersCrl =
           [''FR'' \<mapsto> \<lparr>serialNumbers = [''01:02:03'' \<mapsto> Date_at 50], crls = []\<rparr>]\<rparr>,
      fs = \<lparr>file_content = Map.empty, write_fails = (\<lambda>f. False)\<rparr>,
      queue = [],
      pending_crl_to_process = 0,
      on_crl_process = False\<rparr>"

text \<open>The example store with three CRL files waiting in the queue.\<close>

definition example_queued :: CertificateManager where
  "example_queued =
     example_manager\<lparr>queue := [(Index_issuersCrl, ''a.crl''), (Index_issuersCrl, ''bad.crl''),
                               (Index_issuersCrl, ''b.crl'')],
                     pending_crl_to_process := 3\<rparr>"

section \<open>Properties of the tag reader\<close>

lemma js_number_exact: "x < 2 ^ 53 \<Longrightarrow> js_number x = x"
  by (simp add: js_number_def)

lemma readTag_loop_exact:
  "pos + k \<le> length buf \<Longrightarrow> len * 256 ^ k + be_nat (take k (drop pos buf)) < 2 ^ 53 \<Longrightarrow>
   readTag_loop buf k len pos = Inr (len * 256 ^ k + be_nat (take k (drop pos buf)), pos + k)"
proof (induction k arbitrary: len pos)
  case 0
  then show ?case by simp
next
  case (Suc k)
  let ?b = "unat (buf ! pos)"
  let ?rest = "take k (drop (Suc pos) buf)"
  from Suc.prems(1) have inb: "pos < length buf" by simp
  then have tk: "take (Suc k) (drop pos buf) = buf ! pos # ?rest"
    by (simp add: take_Suc_conv_app_nth Cons_nth_drop_Suc [symmetric])
  have lr: "length ?rest = k" using Suc.prems(1) by simp
  have "be_nat (take (Suc k) (drop pos buf)) = ?b * 256 ^ k + be_nat ?rest"
    unfolding tk be_nat.simps lr ..
  with Suc.prems(2) have tot: "(len * 256 + ?b) * 256 ^ k + be_nat ?rest < 2 ^ 53"
    by (simp add: algebra_simps)
  have "len * 256 + ?b \<le> (len * 256 + ?b) * 256 ^ k" by simp
  with tot have small: "len * 256 + ?b < 2 ^ 53" by linarith
  have "readTag_loop buf (Suc k) len pos = readTag_loop buf k (len * 256 + ?b) (Suc pos)"
    using inb small by (simp add: readUInt8_def js_number_exact)
  also have "\<dots> = Inr ((len * 256 + ?b) * 256 ^ k + be_nat ?rest, Suc pos + k)"
    using Suc.prems(1) tot by (intro Suc.IH) simp_all
  finally show ?case unfolding tk be_nat.simps lr by (simp add: algebra_simps)
qed

lemma readUInt8_append: "off < length b \<Longrightarrow> readUInt8 (b @ r) off = readUInt8 b off"
  by (simp add: readUInt8_def nth_append)

lemma readUInt8_Inr_bound: "readUInt8 b off = Inr x \<Longrightarrow> off < length b"
  by (simp add: readUInt8_def split: if_splits)

lemma readTag_loop_append:
  "readTag_loop b k len pos = Inr x \<Longrightarrow> readTag_loop (b @ r) k len pos = Inr x"
proof (induction k arbitrary: len pos)
  case 0
  then show ?case by simp
next
  case (Suc k)
  from Suc.prems obtain v where v: "readUInt8 b pos = Inr v"
    and loop: "readTag_loop b k (js_number (len * 256 + v)) (pos + 1) = Inr x"
    by (auto split: sum.splits)
  have "readUInt8 (b @ r) pos = Inr v"
    using v readUInt8_Inr_bound [OF v] by (simp add: readUInt8_append)
  with Suc.IH [OF loop] show ?case by simp
qed

lemma readTag_append:
  assumes "readTag b pos = Inr bi"
  shows "readTag (b @ r) pos = Inr bi"
proof -
  from assms have p: "pos < length b" by (simp add: readTag_def split: if_splits)
  from assms obtain t where t: "readUInt8 b pos = Inr t"
    by (auto simp: readTag_def split: if_splits sum.splits)
  from assms t p obtain l where l: "readUInt8 b (pos + 1) = Inr l"
    by (auto simp: readTag_def split: if_splits sum.splits)
  have t': "readUInt8 (b @ r) pos = Inr t"
    using t readUInt8_Inr_bound [OF t] by (simp add: readUInt8_append)
  have l': "readUInt8 (b @ r) (pos + 1) = Inr l"
    using l readUInt8_Inr_bound [OF l] by (simp add: readUInt8_append)
  show ?thesis
  proof (cases "127 < l")
    case False
    with assms t l t' l' p show ?thesis by (simp add: readTag_def)
  next
    case True
    with assms t l p obtain x where x: "readTag_loop b (l AND 0x7f) 0 (pos + 2) = Inr x"
      by (auto simp: readTag_def split: sum.splits)
    from readTag_loop_append [OF x] have "readTag_loop (b @ r) (l AND 0x7f) 0 (pos + 2) = Inr x" .
    with assms t l t' l' p True x show ?thesis by (simp add: readTag_def)
  qed
qed

text \<open>
  Claim C7, as amended. When the length byte has its high bit set, \<open>readTag\<close> takes its
  low 7 bits as the number \<open>n\<close> of length bytes that follow, and, when those bytes are
  in the buffer and the big-endian integer they spell is below \<open>2 ^ 53\<close>, returns that
  integer as the block length, the tag byte as the tag, and the position just past the
  tag, the length byte and the \<open>n\<close> bytes.
\<close>

theorem readTag_long_form:
  assumes "pos + 1 < length buf"
    and "127 < unat (buf ! (pos + 1))"
    and "n = unat (buf ! (pos + 1) AND 0x7f)"
    and "pos + 2 + n \<le> length buf"
    and "be_nat (take n (drop (pos + 2) buf)) < 2 ^ 53"
  shows "readTag buf pos =
           Inr \<lparr>tag = unat (buf ! pos), position = pos + 2 + n,
                length_blk = be_nat (take n (drop (pos + 2) buf))\<rparr>"
proof -
  have n: "unat (buf ! (pos + 1)) AND 0x7f = n"
    using assms(3) by (simp add: unsigned_and_eq)
  have "readTag_loop buf n 0 (pos + 2) =
          Inr (0 * 256 ^ n + be_nat (take n (drop (pos + 2) buf)), pos + 2 + n)"
    using assms(4,5) by (intro readTag_loop_exact) simp_all
  then show ?thesis
    using assms(1,2) n by (simp add: readTag_def readUInt8_def)
qed

text \<open>
  A buffer that begins \<open>0x30, 0x82, 0x01, 0x0A\<close>, read at position 0: the length is
  \<open>0x010A = 266\<close> and the position is 4, whatever follows.
\<close>

theorem readTag_long_form_witness:
  "\<forall>rest. readTag ([0x30, 0x82, 0x01, 0x0A] @ rest) 0 =
            Inr \<lparr>tag = 0x30, position = 4, length_blk = 266\<rparr>"
proof
  fix rest :: Buffer
  let ?buf = "[0x30, 0x82, 0x01, 0x0A] @ rest"
  have h1: "(0::nat) + 1 < length ?buf" by simp
  have h2: "127 < unat (?buf ! (0 + 1))" by simp
  have h3: "(2::nat) = unat (?buf ! (0 + 1) AND 0x7f)" by simp
  have h4: "(0::nat) + 2 + 2 \<le> length ?buf" by simp
  have h5: "take 2 (drop (0 + 2) ?buf) = [0x01, 0x0A]" by simp
  have h6: "be_nat (take 2 (drop (0 + 2) ?buf)) < 2 ^ 53" unfolding h5 by simp
  have "be_nat [0x01, 0x0A] = 266" by simp
  with readTag_long_form [OF h1 h2 h3 h4 h6] h5
  show "readTag ?buf 0 = Inr \<lparr>tag = 0x30, position = 4, length_blk = 266\<rparr>"
    by simp
qed

lemma readTag_loop_numeral:
  "readTag_loop buf (numeral k) len pos =
     (case readUInt8 buf pos of
        Inl e \<Rightarrow> Inl e
      | Inr b \<Rightarrow> readTag_loop buf (pred_numeral k) (js_number (len * 256 + b)) (pos + 1))"
  by (simp add: numeral_eq_Suc)

lemma bit_length_example: "bit_length 9007199254740993 = 54"
  by (simp add: bit_length.simps)

lemma js_number_example: "js_number 9007199254740993 = 9007199254740992"
  by (simp add: js_number_def bit_length_example)

text \<open>
  Claim C7 as first stated has no bound on the integer. Seven length bytes can spell
  \<open>2 ^ 53 + 1\<close>, which no JavaScript number holds: the length returned is \<open>2 ^ 53\<close>.
\<close>

theorem readTag_long_form_counterexample:
  "readTag [0x30, 0x87, 0x20, 0, 0, 0, 0, 0, 0x01] 0 =
     Inr \<lparr>tag = 0x30, position = 9, length_blk = 9007199254740992\<rparr>
   \<and> be_nat [0x20, 0, 0, 0, 0, 0, 0x01] = 9007199254740993"
  by (simp add: readTag_def readUInt8_def readTag_loop_numeral js_number_exact js_number_example)

section \<open>Splitting and combining\<close>

lemma tlv_block_readTag:
  assumes "tlv_block b"
  obtains bi where "readTag b 0 = Inr bi"
    and "js_number (position bi + length_blk bi) = length b"
  using assms by (auto simp: tlv_block_def js_number_exact split: sum.splits)

lemma tlv_block_nonempty: "tlv_block b \<Longrightarrow> b \<noteq> []"
  by (auto simp: tlv_block_def readTag_def)

lemma split_der_loop_block:
  assumes "tlv_block b"
  shows "split_der_loop (b @ rest) acc =
           (if rest = [] then Inr (acc @ [b]) else split_der_loop rest (acc @ [b]))"
proof -
  from assms obtain bi where bi: "readTag b 0 = Inr bi"
    and len: "js_number (position bi + length_blk bi) = length b"
    by (rule tlv_block_readTag)
  from readTag_append [OF bi] have "readTag (b @ rest) 0 = Inr bi" .
  then show ?thesis
    by (subst split_der_loop.simps) (simp add: len Let_def)
qed

lemma split_der_loop_concat:
  "bs \<noteq> [] \<Longrightarrow> \<forall>b \<in> set bs. tlv_block b \<Longrightarrow> split_der_loop (concat bs) acc = Inr (acc @ bs)"
proof (induction bs arbitrary: acc)
  case Nil
  then show ?case by simp
next
  case (Cons b bs)
  from Cons.prems have b: "tlv_block b" and rest: "\<forall>b \<in> set bs. tlv_block b" by simp_all
  show ?case
  proof (cases "bs = []")
    case True
    then show ?thesis using split_der_loop_block [OF b, of "[]" acc] by simp
  next
    case False
    then obtain c where "c \<in> set bs" by (cases bs) auto
    with rest have ne: "concat bs \<noteq> []" by (auto dest: tlv_block_nonempty)
    have "split_der_loop (concat (b # bs)) acc = split_der_loop (b @ concat bs) acc" by simp
    also have "\<dots> = split_der_loop (concat bs) (acc @ [b])"
      unfolding split_der_loop_block [OF b, of "concat bs" acc] using ne by (rule if_not_P)
    also have "\<dots> = Inr ((acc @ [b]) @ bs)" using False rest by (rule Cons.IH)
    finally show ?thesis by simp
  qed
qed

lemma split_der_single: "tlv_block b \<Longrightarrow> split_der b = Inr [b]"
  using split_der_loop_block [of b "[]" "[]"] by (simp add: split_der_def)

lemma combine_der_check_blocks:
  "\<forall>b \<in> set bs. tlv_block b \<Longrightarrow> combine_der_check bs = Inr ()"
proof (induction bs)
  case Nil
  then show ?case by simp
next
  case (Cons b bs)
  then have b: "tlv_block b" by simp
  from b obtain bi where "readTag b 0 = Inr bi"
    and "js_number (position bi + length_blk bi) = length b"
    by (rule tlv_block_readTag)
  then have "combine_der_blocks [b] 0 = Inr (length b)" by simp
  with Cons split_der_single [OF b] show ?case by simp
qed

text \<open>
  Claim C8. A buffer that is the concatenation of one or more well-formed top-level
  blocks splits into exactly those blocks, and combining them gives the buffer back,
  byte for byte (the sanity check of \<open>combine_der\<close> passes).
\<close>

theorem split_combine_roundtrip:
  assumes "bs \<noteq> []" and "\<forall>b \<in> set bs. tlv_block b"
  shows "split_der (concat bs) = Inr bs \<and> combine_der bs = Inr (concat bs)"
  using split_der_loop_concat [OF assms, of "[]"] combine_der_check_blocks [OF assms(2)]
  by (simp add: split_der_def combine_der_def)

lemma tlv_block_short: "tlv_block [0x30, 0x01, x]"
  by (simp add: tlv_block_def readTag_def readUInt8_def)

lemma tlv_block_long: "tlv_block [0x30, 0x81, 0x02, x, y]"
  by (simp add: tlv_block_def readTag_def readUInt8_def js_number_exact 
      numeral_eq_Suc[of Num.One])

text \<open>A short-form block followed by a long-form block.\<close>

theorem split_combine_roundtrip_witness:
  "split_der [0x30, 0x01, 0xAA, 0x30, 0x81, 0x02, 0xBB, 0xCC] =
     Inr [[0x30, 0x01, 0xAA], [0x30, 0x81, 0x02, 0xBB, 0xCC]]
   \<and> combine_der [[0x30, 0x01, 0xAA], [0x30, 0x81, 0x02, 0xBB, 0xCC]] =
     Inr [0x30, 0x01, 0xAA, 0x30, 0x81, 0x02, 0xBB, 0xCC]"
  using split_combine_roundtrip [of "[[0x30, 0x01, 0xAA], [0x30, 0x81, 0x02, 0xBB, 0xCC]]"]
  by (simp add: tlv_block_short tlv_block_long)

section \<open>Evaluating the example store\<close>

lemma split_der_example [simp]: "split_der (example_cert x) = Inr [example_cert x]"
  unfolding example_cert_def by (rule split_der_single) (rule tlv_block_short)

lemma example_cert_eq [simp]: "example_cert x = example_cert y \<longleftrightarrow> x = y"
  by (simp add: example_cert_def)

lemma example_crypto_simps:
  "exploreCertificate example_crypto c =
     (case map_of example_certs c of None \<Rightarrow> Inl ParseError | Some i \<Rightarrow> Inr i)"
  "makeFingerprint example_crypto c =
     (case map_of example_certs c of None \<Rightarrow> ''??'' | Some i \<Rightarrow> subjectFingerPrint (tbsCertificate i))"
  "verifyCertificateSignature example_crypto c p = Inr True"
  "toPem example_crypto c = ''PEM''"
  "now example_crypto = 100"
  "readCertificateRevocationList example_crypto f =
     (if f = ''a.crl'' then Inr [0x0A] else if f = ''b.crl'' then Inr [0x0B] else Inl IOError)"
  "exploreCertificateRevocationList example_crypto c =
     (if c = [0x0A] then Inr (example_crl [(''01:02:03'', 70), (''0A'', 71), (''0A'', 72)])
      else if c = [0x0B] then Inr (example_crl [(''0A'', 90), (''0B'', 91)])
      else Inl ParseError)"
  by (simp_all add: example_crypto_def)

lemma example_manager_simps:
  "untrustUnknownCertificate example_manager = True"
  "location example_manager = ''pki''"
  "rejected (thumbs example_manager) = []"
  "trusted (thumbs example_manager) =
     [example_entry 1, example_entry 4, example_entry 5, example_entry 6, example_entry 7,
      example_entry 14]"
  "issuers_certs (thumbs example_manager) =
     [example_entry 1, example_entry 7, example_entry 8, example_entry 9,
      example_entry 11, example_entry 12]"
  "crl (thumbs example_manager) =
     [''FR'' \<mapsto> \<lparr>serialNumbers = [''0C'' \<mapsto> Date_at 60], crls = []\<rparr>]"
  "issuersCrl (thumbs example_manager) =
     [''FR'' \<mapsto> \<lparr>serialNumbers = [''01:02:03'' \<mapsto> Date_at 50], crls = []\<rparr>]"
  by (simp_all add: example_manager_def)

lemmas example_defs =
  example_crypto_simps example_manager_simps example_certs_def example_entry_def
  example_info_def example_info_v1_def example_info_undated_def example_info_aki_def
  example_info_named_def

lemmas time_defs = isTimeInvalid_def getTime_def js_greater_def js_less_eq_def

lemmas decoder_defs =
  isSelfSigned2_def extensions_subjectKeyIdentifier_def authorityKeyIdentifier_keyIdentifier_def
  extensions_authorityKeyIdentifier_def authorityKeyIdentifier_serial_def
  authorityKeyIdentifier_authorityCertIssuerFingerPrint_def truthy_def

section \<open>Chain verification\<close>

lemma innerVerify_unfold:
  assumes "level < 5" and "split_der cert = Inr (chain0 # others)"
    and "exploreCertificate K chain0 = Inr info"
  shows "innerVerifyCertificateAsync K m cert isIssuer level =
           (case chain_checks K m cert chain0 info
                   (\<lambda>ic. innerVerifyCertificateAsync K m ic True (level + 1)) of
              Inl e \<Rightarrow> Inl e
            | Inr (Return verdict) \<Rightarrow> Inr verdict
            | Inr (Continue hasValidIssuer hasTrustedIssuer) \<Rightarrow>
               final_verdict K m cert others
                 (truthy (authorityKeyIdentifier_keyIdentifier info))
                 hasValidIssuer hasTrustedIssuer)"
  using assms by (subst innerVerifyCertificateAsync.simps) simp

lemma innerVerify_too_deep:
  "5 \<le> level \<Longrightarrow> innerVerifyCertificateAsync K m cert isIssuer level = Inr BadSecurityChecksFailed"
  by (subst innerVerifyCertificateAsync.simps) simp

lemma issuer_links_fail:
  "issuer_links K m cert n \<Longrightarrow> n = 5 - level \<Longrightarrow>
   innerVerifyCertificateAsync K m cert isIssuer level = Inr BadSecurityChecksFailed"
proof (induction n arbitrary: cert isIssuer level)
  case 0
  then show ?case by (simp add: innerVerify_too_deep)
next
  case (Suc n)
  from Suc.prems(2) have lvl: "level < 5" and n: "n = 5 - (level + 1)" by simp_all
  from Suc.prems(1) obtain chain0 others info issuer where
    sd: "split_der cert = Inr (chain0 # others)"
    and ex: "exploreCertificate K chain0 = Inr info"
    and key: "truthy (authorityKeyIdentifier_keyIdentifier info)"
    and nss: "\<not> isSelfSigned2 info"
    and fi: "findIssuerCertificate K m chain0 = Inr (Some issuer)"
    and links: "issuer_links K m issuer n"
    by (auto split: sum.splits list.splits option.splits)
  have "innerVerifyCertificateAsync K m issuer True (level + 1) = Inr BadSecurityChecksFailed"
    using links n by (rule Suc.IH)
  then have "chain_checks K m cert chain0 info
               (\<lambda>ic. innerVerifyCertificateAsync K m ic True (level + 1)) =
             Inr (Return BadSecurityChecksFailed)"
    using key nss fi by (simp add: chain_checks_def)
  then show ?case by (simp add: innerVerify_unfold [OF lvl sd ex])
qed

lemma issuer_links_Suc:
  "issuer_links K m cert (Suc n) \<Longrightarrow> issuer_links K m cert n"
proof (induction n arbitrary: cert)
  case 0
  then show ?case by simp
next
  case (Suc n)
  from Suc.prems obtain chain0 others info issuer where
    sd: "split_der cert = Inr (chain0 # others)"
    and ex: "exploreCertificate K chain0 = Inr info"
    and key: "truthy (authorityKeyIdentifier_keyIdentifier info)"
    and nss: "\<not> isSelfSigned2 info"
    and fi: "findIssuerCertificate K m chain0 = Inr (Some issuer)"
    and links: "issuer_links K m issuer (Suc n)"
    unfolding issuer_links.simps(2) [of K m cert "Suc n"]
    by (auto split: sum.splits list.splits option.splits)
  from links have "issuer_links K m issuer n" by (rule Suc.IH)
  then show ?case
    unfolding issuer_links.simps(2) [of K m cert n] by (simp add: sd ex key nss fi)
qed

lemma issuer_links_shorter:
  "k \<le> n \<Longrightarrow> issuer_links K m cert n \<Longrightarrow> issuer_links K m cert k"
proof (induction n)
  case 0
  then show ?case by simp
next
  case (Suc n)
  show ?case
  proof (cases "k = Suc n")
    case True
    with Suc.prems(2) show ?thesis by simp
  next
    case False
    with Suc.prems(1) have "k \<le> n" by simp
    moreover from Suc.prems(2) have "issuer_links K m cert n" by (rule issuer_links_Suc)
    ultimately show ?thesis by (rule Suc.IH)
  qed
qed

text \<open>
  Claim C2. At level 5 or deeper the verdict is \<open>BadSecurityChecksFailed\<close>, for every
  certificate and store, by the first test of the method and before any recursive
  call. Hence a chain of five or more issuer links in a row (six certificates or more,
  or fewer certificates whose links run in a circle) is verified from level 0 with
  the verdict \<open>BadSecurityChecksFailed\<close>: the method is total, it does not loop.
\<close>

theorem chain_depth_bound:
  "(5 \<le> level \<longrightarrow>
      innerVerifyCertificateAsync K m cert isIssuer level = Inr BadSecurityChecksFailed) \<and>
   (5 \<le> n \<and> issuer_links K m cert n \<longrightarrow>
      innerVerifyCertificateAsync K m cert isIssuer 0 = Inr BadSecurityChecksFailed)"
  using innerVerify_too_deep [of level K m cert isIssuer]
    issuer_links_fail [of K m cert 5 0 isIssuer] issuer_links_shorter [of 5 n K m cert]
  by (auto simp del: issuer_links.simps)

lemma example_issuer_11: "findIssuerCertificate example_crypto example_manager (example_cert 11) = Inr (Some (example_cert 12))"
  by (simp add: findIssuerCertificate_def example_defs decoder_defs)

lemma example_issuer_12: "findIssuerCertificate example_crypto example_manager (example_cert 12) = Inr (Some (example_cert 11))"
  by (simp add: findIssuerCertificate_def example_defs decoder_defs)

lemma issuer_links_numeral:
  "issuer_links K m cert (numeral k) =
     (case split_der cert of
        Inl e \<Rightarrow> False
      | Inr [] \<Rightarrow> False
      | Inr (chain0 # others) \<Rightarrow>
         (case exploreCertificate K chain0 of
            Inl e \<Rightarrow> False
          | Inr info \<Rightarrow>
             truthy (authorityKeyIdentifier_keyIdentifier info) \<and> \<not> isSelfSigned2 info \<and>
             (case findIssuerCertificate K m chain0 of
                Inl e \<Rightarrow> False
              | Inr None \<Rightarrow> False
              | Inr (Some issuerCertificate) \<Rightarrow>
                  issuer_links K m issuerCertificate (pred_numeral k))))"
  by (simp add: numeral_eq_Suc)

lemma example_circle: "issuer_links example_crypto example_manager (example_cert 11) 6"
  by (simp add: issuer_links_numeral example_issuer_11 example_issuer_12 example_defs decoder_defs)

text \<open>Level 7, and six links round the circle of certificates 11 and 12 from level 0.\<close>

theorem chain_depth_bound_witness:
  "(5::nat) \<le> 7 \<and>
   innerVerifyCertificateAsync example_crypto example_manager (example_cert 1) True 7 =
     Inr BadSecurityChecksFailed \<and>
   (5::nat) \<le> 6 \<and> issuer_links example_crypto example_manager (example_cert 11) 6 \<and>
   innerVerifyCertificateAsync example_crypto example_manager (example_cert 11) False 0 =
     Inr BadSecurityChecksFailed"
  using chain_depth_bound [where level = 7 and K = example_crypto and m = example_manager
      and cert = "example_cert 1" and isIssuer = True and n = 0]
    chain_depth_bound [where level = 0 and K = example_crypto and m = example_manager
      and cert = "example_cert 11" and isIssuer = False and n = 6]
    example_circle
  by simp

text \<open>
  Claim C10. \<open>verifyCertificate\<close> of a \<open>null\<close> or missing certificate throws nothing:
  the callback receives the verdict \<open>BadSecurityChecksFailed\<close>.
\<close>

theorem verifyCertificate_missing:
  "verifyCertificate K m None = Inr BadSecurityChecksFailed"
  by (simp add: verifyCertificate_def)

lemma checkRejectedOrTrusted_cases:
  "checkRejectedOrTrusted K m cert =
     (if in_rejected K m cert then Rejected else if in_trusted K m cert then Trusted else Unknown)"
  by (simp add: checkRejectedOrTrusted_def in_rejected_def in_trusted_def map_of_eq_None_iff)

lemma chain_checks_no_key:
  "\<not> truthy (authorityKeyIdentifier_keyIdentifier info) \<Longrightarrow>
   chain_checks K m cert chain0 info v = Inr (Continue False False)"
  by (simp add: chain_checks_def)

lemma final_verdict_trusted:
  assumes "in_trusted K m cert" and "\<not> in_rejected K m cert" and "rest_decodes K others"
    and "exploreCertificateInfo K cert = Inr certificateInfo"
  shows "final_verdict K m cert others k v t =
           Inr (if isTimeInvalid certificateInfo (now K) then BadCertificateTimeInvalid else Good)"
  using assms
  by (auto simp: final_verdict_def checkRejectedOrTrusted_cases rest_decodes_def
      split: list.splits sum.splits)

lemma final_verdict_rejected:
  "in_rejected K m cert \<Longrightarrow> final_verdict K m cert others k v t = Inr BadCertificateUntrusted"
  by (simp add: final_verdict_def checkRejectedOrTrusted_cases)

lemma final_verdict_unknown_no_key:
  assumes "\<not> in_trusted K m cert" and "\<not> in_rejected K m cert" and "rest_decodes K others"
    and "exploreCertificateInfo K cert = Inr certificateInfo"
  shows "final_verdict K m cert others False v t = Inr BadCertificateUntrusted"
  using assms
  by (auto simp: final_verdict_def checkRejectedOrTrusted_cases rest_decodes_def
      split: list.splits sum.splits)

lemma example_in_trusted:
  "in_trusted example_crypto example_manager (example_cert x) \<longleftrightarrow> x \<in> {1, 4, 5, 6, 7, 14}"
  by (auto simp add: in_trusted_def example_defs)

lemma example_in_rejected: "\<not> in_rejected example_crypto example_manager c"
  by (simp add: in_rejected_def example_defs)

lemma example_explore:
  "exploreCertificate example_crypto (example_cert 4) = Inr (example_info_v1 ''04'' ''FP'' 1000)"
  "exploreCertificate example_crypto (example_cert 5) = Inr (example_info ''05'' ''X'' ''Z'' ''FX'' 1000)"
  "exploreCertificate example_crypto (example_cert 6) = Inr (example_info_v1 ''06'' ''FE'' 50)"
  "exploreCertificate example_crypto (example_cert 9) = Inr (example_info ''09'' ''D1'' ''D2'' ''FD1'' 1000)"
  "exploreCertificate example_crypto (example_cert 10) = Inr (example_info ''10'' ''D0'' ''D1'' ''FD0'' 1000)"
  "exploreCertificate example_crypto (example_cert 13) = Inr (example_info_v1 ''13'' ''FU'' 1000)"
  by (simp_all add: example_crypto_simps example_certs_def)

lemma example_explore_14:
  "exploreCertificate example_crypto (example_cert 14) = Inr (example_info_undated ''14'' ''FI'')"
  by (simp add: example_crypto_simps example_certs_def)

lemma example_no_key:
  "authorityKeyIdentifier_keyIdentifier (example_info_v1 sn subject na) = Undefined"
  "authorityKeyIdentifier_keyIdentifier (example_info_undated sn subject) = Undefined"
  by (simp_all add: example_info_v1_def example_info_undated_def decoder_defs)

lemma example_exploreInfo:
  "exploreCertificateInfo example_crypto (example_cert 4) =
     Inr \<lparr>publicKeyLength = 256, notBefore = Date_at 0, notAfter = Date_at 1000\<rparr>"
  "exploreCertificateInfo example_crypto (example_cert 6) =
     Inr \<lparr>publicKeyLength = 256, notBefore = Date_at 0, notAfter = Date_at 50\<rparr>"
  "exploreCertificateInfo example_crypto (example_cert 13) =
     Inr \<lparr>publicKeyLength = 256, notBefore = Date_at 0, notAfter = Date_at 1000\<rparr>"
  "exploreCertificateInfo example_crypto (example_cert 14) =
     Inr \<lparr>publicKeyLength = 256, notBefore = Date_at 0, notAfter = Invalid_Date\<rparr>"
  by (simp_all add: exploreCertificateInfo_def example_explore example_explore_14
      example_info_v1_def example_info_undated_def)

text \<open>
  Claim C1, as amended. A certificate whose extensions name no issuer key (no
  \<open>authorityKeyIdentifier.keyIdentifier\<close>, or an empty one), verified below level 5 and
  decoding without error, gets \<open>BadCertificateUntrusted\<close> when its fingerprint is in the
  rejected map or in neither map. When the fingerprint is in the trusted map and not in
  the rejected map the verdict is \<open>Good\<close>, or \<open>BadCertificateTimeInvalid\<close> outside the
  validity period: trust by fingerprint is looked at before the issuer key.
\<close>

theorem no_issuer_key_verdict:
  assumes "level < 5"
    and "split_der cert = Inr (chain0 # others)"
    and "exploreCertificate K chain0 = Inr info"
    and "\<not> truthy (authorityKeyIdentifier_keyIdentifier info)"
    and "rest_decodes K others"
    and "exploreCertificateInfo K cert = Inr certificateInfo"
  shows "innerVerifyCertificateAsync K m cert isIssuer level =
           Inr (if in_trusted K m cert \<and> \<not> in_rejected K m cert
                then (if isTimeInvalid certificateInfo (now K)
                      then BadCertificateTimeInvalid else Good)
                else BadCertificateUntrusted)"
proof -
  have "innerVerifyCertificateAsync K m cert isIssuer level =
          final_verdict K m cert others False False False"
    using assms(4)
    by (simp add: innerVerify_unfold [OF assms(1-3)] chain_checks_no_key)
  then show ?thesis
    using final_verdict_trusted [OF _ _ assms(5,6)] final_verdict_rejected
      final_verdict_unknown_no_key [OF _ _ assms(5,6)]
    by (cases "in_rejected K m cert"; cases "in_trusted K m cert") simp_all
qed

text \<open>
  Certificate 13 has no extensions and is in neither map; certificate 6 has none
  either, is trusted, and expired at 50.
\<close>

theorem no_issuer_key_verdict_witness:
  "innerVerifyCertificateAsync example_crypto example_manager (example_cert 13) False 0 =
     Inr BadCertificateUntrusted \<and>
   innerVerifyCertificateAsync example_crypto example_manager (example_cert 6) False 0 =
     Inr BadCertificateTimeInvalid"
  using
    no_issuer_key_verdict [of 0 "example_cert 13" "example_cert 13" "[]" example_crypto
      "example_info_v1 ''13'' ''FU'' 1000" "\<lparr>publicKeyLength = 256, notBefore = Date_at 0, notAfter = Date_at 1000\<rparr>"
      example_manager False]
    no_issuer_key_verdict [of 0 "example_cert 6" "example_cert 6" "[]" example_crypto
      "example_info_v1 ''06'' ''FE'' 50" "\<lparr>publicKeyLength = 256, notBefore = Date_at 0, notAfter = Date_at 50\<rparr>"
      example_manager False]
  by (simp add: example_explore example_no_key example_exploreInfo rest_decodes_def truthy_def
      example_in_trusted example_in_rejected time_defs example_crypto_simps(5))

text \<open>
  Claim C1 as first stated gives \<open>BadCertificateUntrusted\<close> whatever the trusted map
  holds. Certificate 4 has no extensions, is trusted, and is verified \<open>Good\<close>.
\<close>

theorem no_issuer_key_counterexample:
  "exploreCertificate example_crypto (example_cert 4) = Inr (example_info_v1 ''04'' ''FP'' 1000) \<and>
   authorityKeyIdentifier_keyIdentifier (example_info_v1 ''04'' ''FP'' 1000) = Undefined \<and>
   innerVerifyCertificateAsync example_crypto example_manager (example_cert 4) False 0 = Inr Good"
proof -
  have "final_verdict example_crypto example_manager (example_cert 4) [] False False False =
          Inr Good"
    using final_verdict_trusted [of example_crypto example_manager "example_cert 4" "[]"
        "\<lparr>publicKeyLength = 256, notBefore = Date_at 0, notAfter = Date_at 1000\<rparr>" False False False]
    by (simp add: example_in_trusted example_in_rejected rest_decodes_def example_exploreInfo
        time_defs example_crypto_simps(5))
  then show ?thesis
    using innerVerify_unfold [of 0 "example_cert 4" "example_cert 4" "[]" example_crypto
        "example_info_v1 ''04'' ''FP'' 1000" example_manager False]
    by (simp add: example_explore example_no_key chain_checks_no_key truthy_def)
qed

lemma isTimeInvalid_iff:
  "\<not> isTimeInvalid certificateInfo t \<longleftrightarrow>
   within_validity (notBefore certificateInfo) (notAfter certificateInfo) t"
  by (cases "notBefore certificateInfo"; cases "notAfter certificateInfo")
     (auto simp: time_defs)

text \<open>
  Claim C6, as amended. The certificate is judged time-valid exactly when
  \<open>notBefore \<le> now < notAfter\<close>, for bounds that are valid dates; a bound that did not
  parse (an Invalid Date) is not checked. When the certificate's fingerprint is in the
  trusted map and not in the rejected map, and the checks of its issuer chain (below
  level 5) end without a verdict of their own, the verdict is \<open>Good\<close> when time-valid
  and \<open>BadCertificateTimeInvalid\<close> when not.
\<close>

theorem time_validity:
  assumes "level < 5"
    and "split_der cert = Inr (chain0 # others)"
    and "exploreCertificate K chain0 = Inr info"
    and "chain_checks K m cert chain0 info
           (\<lambda>ic. innerVerifyCertificateAsync K m ic True (level + 1)) =
         Inr (Continue hasValidIssuer hasTrustedIssuer)"
    and "in_trusted K m cert" and "\<not> in_rejected K m cert"
    and "rest_decodes K others"
    and "exploreCertificateInfo K cert = Inr certificateInfo"
  shows "(\<forall>t. \<not> isTimeInvalid certificateInfo t \<longleftrightarrow>
               within_validity (notBefore certificateInfo) (notAfter certificateInfo) t) \<and>
         innerVerifyCertificateAsync K m cert isIssuer level =
           Inr (if within_validity (notBefore certificateInfo) (notAfter certificateInfo) (now K)
                then Good else BadCertificateTimeInvalid)"
proof -
  have "innerVerifyCertificateAsync K m cert isIssuer level =
          final_verdict K m cert others (truthy (authorityKeyIdentifier_keyIdentifier info))
            hasValidIssuer hasTrustedIssuer"
    using assms(4) by (simp add: innerVerify_unfold [OF assms(1-3)])
  then show ?thesis
    using final_verdict_trusted [OF assms(5-8)] isTimeInvalid_iff [of certificateInfo]
    by auto
qed

text \<open>
  Certificates 4 and 6, trusted and without an issuer key, at levels 0 and 1;
  certificate 14, trusted, whose \<open>notAfter\<close> is an Invalid Date.
\<close>

theorem time_validity_witness:
  "innerVerifyCertificateAsync example_crypto example_manager (example_cert 4) False 0 = Inr Good \<and>
   innerVerifyCertificateAsync example_crypto example_manager (example_cert 6) True 1 =
     Inr BadCertificateTimeInvalid \<and>
   innerVerifyCertificateAsync example_crypto example_manager (example_cert 14) False 0 = Inr Good"
  using
    time_validity [of 0 "example_cert 4" "example_cert 4" "[]" example_crypto
      "example_info_v1 ''04'' ''FP'' 1000" example_manager False False
      "\<lparr>publicKeyLength = 256, notBefore = Date_at 0, notAfter = Date_at 1000\<rparr>" False]
    time_validity [of 1 "example_cert 6" "example_cert 6" "[]" example_crypto
      "example_info_v1 ''06'' ''FE'' 50" example_manager False False
      "\<lparr>publicKeyLength = 256, notBefore = Date_at 0, notAfter = Date_at 50\<rparr>" True]
    time_validity [of 0 "example_cert 14" "example_cert 14" "[]" example_crypto
      "example_info_undated ''14'' ''FI''" example_manager False False
      "\<lparr>publicKeyLength = 256, notBefore = Date_at 0, notAfter = Invalid_Date\<rparr>" False]
  by (simp add: example_explore example_explore_14 example_no_key example_exploreInfo
      rest_decodes_def truthy_def example_in_trusted example_in_rejected chain_checks_no_key
      example_crypto_simps(5))

lemma example_issuer_5:
  "findIssuerCertificate example_crypto example_manager (example_cert 5) = Inr None"
  by (simp add: findIssuerCertificate_def example_defs decoder_defs)

lemma example_verdict_5:
  "innerVerifyCertificateAsync example_crypto example_manager (example_cert 5) False 0 =
     Inr BadSecurityChecksFailed"
proof -
  have "chain_checks example_crypto example_manager (example_cert 5) (example_cert 5)
          (example_info ''05'' ''X'' ''Z'' ''FX'' 1000)
          (\<lambda>ic. innerVerifyCertificateAsync example_crypto example_manager ic True (0 + 1)) =
        Inr (Return BadSecurityChecksFailed)"
    by (simp add: chain_checks_def example_issuer_5 example_info_def decoder_defs)
  then show ?thesis
    using innerVerify_unfold [of 0 "example_cert 5" "example_cert 5" "[]" example_crypto
        "example_info ''05'' ''X'' ''Z'' ''FX'' 1000" example_manager False]
    by (simp add: example_explore)
qed

lemma example_verdict_14:
  "innerVerifyCertificateAsync example_crypto example_manager (example_cert 14) False 0 = Inr Good"
proof -
  have "final_verdict example_crypto example_manager (example_cert 14) [] False False False =
          Inr Good"
    using final_verdict_trusted [of example_crypto example_manager "example_cert 14" "[]"
        "\<lparr>publicKeyLength = 256, notBefore = Date_at 0, notAfter = Invalid_Date\<rparr>"
        False False False]
    by (simp add: example_in_trusted example_in_rejected rest_decodes_def example_exploreInfo
        time_defs example_crypto_simps(5))
  then show ?thesis
    using innerVerify_unfold [of 0 "example_cert 14" "example_cert 14" "[]" example_crypto
        "example_info_undated ''14'' ''FI''" example_manager False]
    by (simp add: example_explore_14 example_no_key chain_checks_no_key truthy_def)
qed

text \<open>
  Claim C6 as first stated speaks of every trusted certificate and of every validity
  period. Certificate 5 is trusted and within its validity period, but it names an
  issuer that the store does not hold: the verdict is \<open>BadSecurityChecksFailed\<close>.
  Certificate 14 is trusted and its \<open>notAfter\<close> is an Invalid Date, so that
  \<open>now < notAfter\<close> does not hold: the verdict is \<open>Good\<close>.
\<close>

theorem time_validity_counterexample:
  "in_trusted example_crypto example_manager (example_cert 5) \<and>
   \<not> in_rejected example_crypto example_manager (example_cert 5) \<and>
   innerVerifyCertificateAsync example_crypto example_manager (example_cert 5) False 0 =
     Inr BadSecurityChecksFailed \<and>
   in_trusted example_crypto example_manager (example_cert 14) \<and>
   \<not> in_rejected example_crypto example_manager (example_cert 14) \<and>
   exploreCertificateInfo example_crypto (example_cert 14) =
     Inr \<lparr>publicKeyLength = 256, notBefore = Date_at 0, notAfter = Invalid_Date\<rparr> \<and>
   \<not> in_half_open_period (Date_at 0) Invalid_Date (now example_crypto) \<and>
   innerVerifyCertificateAsync example_crypto example_manager (example_cert 14) False 0 = Inr Good"
  by (simp add: example_in_trusted example_in_rejected example_verdict_5 example_verdict_14
      example_exploreInfo in_half_open_period_def)

text \<open>
  Claim C4, as amended. For a certificate that is not self-signed and whose issuer is
  found, the issuer's verdict maps as follows: \<open>BadCertificateRevocationUnknown\<close> and
  \<open>BadCertificateIssuerRevocationUnknown\<close> both give
  \<open>BadCertificateIssuerRevocationUnknown\<close>; \<open>BadCertificateTimeInvalid\<close> gives
  \<open>BadCertificateIssuerTimeInvalid\<close>; any verdict other than these three, \<open>Good\<close> and
  \<open>BadCertificateUntrusted\<close> gives \<open>BadSecurityChecksFailed\<close>; only for \<open>Good\<close> and
  \<open>BadCertificateUntrusted\<close> is the signature of the certificate checked against the
  issuer, and a mismatch gives \<open>BadSecurityChecksFailed\<close>.
\<close>

theorem issuer_verdict_mapping:
  assumes "level < 5"
    and "split_der cert = Inr (chain0 # others)"
    and "exploreCertificate K chain0 = Inr info"
    and "truthy (authorityKeyIdentifier_keyIdentifier info)"
    and "\<not> isSelfSigned2 info"
    and "findIssuerCertificate K m chain0 = Inr (Some issuerCertificate)"
    and "innerVerifyCertificateAsync K m issuerCertificate True (level + 1) = Inr issuerStatus"
  shows "(issuerStatus = BadCertificateRevocationUnknown \<or>
          issuerStatus = BadCertificateIssuerRevocationUnknown \<longrightarrow>
            innerVerifyCertificateAsync K m cert isIssuer level =
              Inr BadCertificateIssuerRevocationUnknown) \<and>
         (issuerStatus = BadCertificateTimeInvalid \<longrightarrow>
            innerVerifyCertificateAsync K m cert isIssuer level =
              Inr BadCertificateIssuerTimeInvalid) \<and>
         (issuerStatus \<notin> {BadCertificateRevocationUnknown, BadCertificateIssuerRevocationUnknown,
                           BadCertificateTimeInvalid, Good, BadCertificateUntrusted} \<longrightarrow>
            innerVerifyCertificateAsync K m cert isIssuer level = Inr BadSecurityChecksFailed) \<and>
         (issuerStatus \<in> {Good, BadCertificateUntrusted} \<longrightarrow>
            verifyCertificateSignature K cert issuerCertificate = Inr False \<longrightarrow>
            innerVerifyCertificateAsync K m cert isIssuer level = Inr BadSecurityChecksFailed)"
  using assms(4-7)
  by (auto simp: innerVerify_unfold [OF assms(1-3)] chain_checks_def)

lemma example_explore_chain:
  "exploreCertificate example_crypto (example_cert 7) = Inr (example_info ''07'' ''R2'' ''R2'' ''FR2'' 1000)"
  "exploreCertificate example_crypto (example_cert 8) = Inr (example_info ''08'' ''D2'' ''R2'' ''FD2'' 1000)"
  by (simp_all add: example_crypto_simps example_certs_def)

lemma example_issuers:
  "findIssuerCertificate example_crypto example_manager (example_cert 8) = Inr (Some (example_cert 7))"
  "findIssuerCertificate example_crypto example_manager (example_cert 9) = Inr (Some (example_cert 8))"
  "findIssuerCertificate example_crypto example_manager (example_cert 10) = Inr (Some (example_cert 9))"
  by (simp_all add: findIssuerCertificate_def example_defs decoder_defs)

lemma example_revoked_7:
  "isCertificateRevoked example_crypto example_manager (example_cert 7) None = Inr Good"
  by (simp add: isCertificateRevoked_def isSelfSigned3_def example_explore_chain
      example_info_def decoder_defs)

lemma example_revoked_8:
  "isCertificateRevoked example_crypto example_manager (example_cert 8) None =
     Inr BadCertificateRevocationUnknown"
  by (simp add: isCertificateRevoked_def isSelfSigned3_def example_explore_chain example_issuers
      findAssociatedCRLs_def example_info_def decoder_defs example_manager_simps)

lemma example_verdict_7:
  "innerVerifyCertificateAsync example_crypto example_manager (example_cert 7) True (Suc (Suc (Suc 0))) = Inr Good"
proof -
  have "chain_checks example_crypto example_manager (example_cert 7) (example_cert 7)
          (example_info ''07'' ''R2'' ''R2'' ''FR2'' 1000)
          (\<lambda>ic. innerVerifyCertificateAsync example_crypto example_manager ic True (Suc (Suc (Suc 0)) + 1)) =
        Inr (Continue False False)"
    by (simp add: chain_checks_def example_revoked_7 example_crypto_simps(3))
       (simp add: example_info_def decoder_defs)
  moreover have "exploreCertificateInfo example_crypto (example_cert 7) =
      Inr \<lparr>publicKeyLength = 256, notBefore = Date_at 0, notAfter = Date_at 1000\<rparr>"
    by (simp add: exploreCertificateInfo_def example_explore_chain example_info_def)
  ultimately show ?thesis
    using innerVerify_unfold [of "Suc (Suc (Suc 0))" "example_cert 7" "example_cert 7" "[]" example_crypto
        "example_info ''07'' ''R2'' ''R2'' ''FR2'' 1000" example_manager True]
      final_verdict_trusted [of example_crypto example_manager "example_cert 7" "[]"
        "\<lparr>publicKeyLength = 256, notBefore = Date_at 0, notAfter = Date_at 1000\<rparr>"]
    by (simp add: example_explore_chain example_in_trusted example_in_rejected rest_decodes_def
        time_defs example_crypto_simps(5))
qed

lemma example_verdict_8:
  "innerVerifyCertificateAsync example_crypto example_manager (example_cert 8) True (Suc (Suc 0)) =
     Inr BadCertificateRevocationUnknown"
proof -
  have "chain_checks example_crypto example_manager (example_cert 8) (example_cert 8)
          (example_info ''08'' ''D2'' ''R2'' ''FD2'' 1000)
          (\<lambda>ic. innerVerifyCertificateAsync example_crypto example_manager ic True (Suc (Suc 0) + 1)) =
        Inr (Return BadCertificateRevocationUnknown)"
    by (simp add: chain_checks_def example_issuers example_verdict_7 example_revoked_8
        example_crypto_simps(3)) (simp add: example_info_def decoder_defs)
  then show ?thesis
    using innerVerify_unfold [of "Suc (Suc 0)" "example_cert 8" "example_cert 8" "[]" example_crypto
        "example_info ''08'' ''D2'' ''R2'' ''FD2'' 1000" example_manager True]
    by (simp add: example_explore_chain)
qed

lemma example_key:
  "truthy (authorityKeyIdentifier_keyIdentifier (example_info sn ski (a # aki) subject na))"
  "isSelfSigned2 (example_info sn ski aki subject na) \<longleftrightarrow> ski = aki"
  by (simp_all add: example_info_def decoder_defs)

text \<open>
  Certificate 9 at level 1: its issuer 8 was issued by root 7, for which no CRL is
  indexed, so the verdict of 8 is \<open>BadCertificateRevocationUnknown\<close>.
\<close>

theorem issuer_verdict_mapping_witness:
  "innerVerifyCertificateAsync example_crypto example_manager (example_cert 9) True 1 =
     Inr BadCertificateIssuerRevocationUnknown"
  using issuer_verdict_mapping [of 1 "example_cert 9" "example_cert 9" "[]" example_crypto
      "example_info ''09'' ''D1'' ''D2'' ''FD1'' 1000" example_manager "example_cert 8"
      BadCertificateRevocationUnknown True]
  by (simp add: example_explore example_key example_issuers example_verdict_8)

text \<open>
  Claim C4 as first stated sends every issuer verdict other than the four it names to
  \<open>BadSecurityChecksFailed\<close>. Certificate 10 was issued by 9, whose verdict is
  \<open>BadCertificateIssuerRevocationUnknown\<close>; the verdict of 10 is
  \<open>BadCertificateIssuerRevocationUnknown\<close> too.
\<close>

theorem issuer_verdict_mapping_counterexample:
  "\<not> isSelfSigned2 (example_info ''10'' ''D0'' ''D1'' ''FD0'' 1000) \<and>
   exploreCertificate example_crypto (example_cert 10) =
     Inr (example_info ''10'' ''D0'' ''D1'' ''FD0'' 1000) \<and>
   findIssuerCertificate example_crypto example_manager (example_cert 10) =
     Inr (Some (example_cert 9)) \<and>
   innerVerifyCertificateAsync example_crypto example_manager (example_cert 9) True 1 =
     Inr BadCertificateIssuerRevocationUnknown \<and>
   innerVerifyCertificateAsync example_crypto example_manager (example_cert 10) False 0 =
     Inr BadCertificateIssuerRevocationUnknown"
proof -
  have "chain_checks example_crypto example_manager (example_cert 9) (example_cert 9)
          (example_info ''09'' ''D1'' ''D2'' ''FD1'' 1000)
          (\<lambda>ic. innerVerifyCertificateAsync example_crypto example_manager ic True (Suc 0 + 1)) =
        Inr (Return BadCertificateIssuerRevocationUnknown)"
    by (simp add: chain_checks_def example_issuers example_verdict_8 example_key)
  then have v9: "innerVerifyCertificateAsync example_crypto example_manager (example_cert 9) True (Suc 0) =
      Inr BadCertificateIssuerRevocationUnknown"
    using innerVerify_unfold [of "Suc 0" "example_cert 9" "example_cert 9" "[]" example_crypto
        "example_info ''09'' ''D1'' ''D2'' ''FD1'' 1000" example_manager True]
    by (simp add: example_explore)
  have "chain_checks example_crypto example_manager (example_cert 10) (example_cert 10)
          (example_info ''10'' ''D0'' ''D1'' ''FD0'' 1000)
          (\<lambda>ic. innerVerifyCertificateAsync example_crypto example_manager ic True (0 + 1)) =
        Inr (Return BadCertificateIssuerRevocationUnknown)"
    by (simp add: chain_checks_def example_issuers v9 example_key)
  then have "innerVerifyCertificateAsync example_crypto example_manager (example_cert 10) False 0 =
      Inr BadCertificateIssuerRevocationUnknown"
    using innerVerify_unfold [of 0 "example_cert 10" "example_cert 10" "[]" example_crypto
        "example_info ''10'' ''D0'' ''D1'' ''FD0'' 1000" example_manager False]
    by (simp add: example_explore)
  with v9 show ?thesis by (simp add: example_explore example_issuers example_key)
qed

section \<open>Revocation\<close>

lemma isSelfSigned2_fields: "isSelfSigned2 info \<longleftrightarrow> same_key_identifiers info"
  by (auto simp: isSelfSigned2_def same_key_identifiers_def extensions_subjectKeyIdentifier_def
      authorityKeyIdentifier_keyIdentifier_def extensions_authorityKeyIdentifier_def
      split: option.splits)

lemma revocation_serialNumber_fields: "revocation_serialNumber info = serial_looked_up info"
  by (simp add: revocation_serialNumber_def serial_looked_up_def authorityKeyIdentifier_serial_def
      extensions_authorityKeyIdentifier_def split: option.splits)

lemma revocation_key_fields: "revocation_key info = direct_index_key info"
  by (simp add: revocation_key_def direct_index_key_def
      authorityKeyIdentifier_authorityCertIssuerFingerPrint_def
      extensions_authorityKeyIdentifier_def split: option.splits)

text \<open>
  Claim C3, as amended. \<open>isCertificateRevoked(cert, issuerCert?)\<close>, for a certificate
  that decodes: \<open>Good\<close> when its subject key identifier equals the key identifier of
  its authority key identifier, or when it has neither (a certificate without
  extensions included); otherwise \<open>BadCertificateChainIncomplete\<close> when no issuer is
  given and none is found; \<open>BadCertificateRevocationUnknown\<close> when the issuer, given or
  found, has no CRL indexed under its subject fingerprint in either index; otherwise,
  with the serial-to-date map found for the issuer (the one of the issuers' CRL index
  if there is one, else the one of the direct CRL index), \<open>BadCertificateRevoked\<close> when
  the serial number looked up (the certificate's own or, when that is empty, the one
  named by its authority key identifier) is bound in that map, or in the map that the
  direct CRL index holds under the issuer fingerprint named by the certificate's
  authority key identifier; \<open>Good\<close> otherwise.
\<close>

theorem isCertificateRevoked_cases:
  assumes "exploreCertificate K cert = Inr certInfo"
  shows
    "(same_key_identifiers certInfo \<longrightarrow>
        isCertificateRevoked K m cert issuerCertificate = Inr Good) \<and>
     (\<not> same_key_identifiers certInfo \<longrightarrow>
        (issuerCertificate = None \<and> findIssuerCertificate K m cert = Inr None \<longrightarrow>
           isCertificateRevoked K m cert issuerCertificate = Inr BadCertificateChainIncomplete) \<and>
        (\<forall>ic icInfo.
           (issuerCertificate = Some ic \<or>
            issuerCertificate = None \<and> findIssuerCertificate K m cert = Inr (Some ic)) \<longrightarrow>
           exploreCertificate K ic = Inr icInfo \<longrightarrow>
           (issuersCrl (thumbs m) (subjectFingerPrint (tbsCertificate icInfo)) = None \<and>
            crl (thumbs m) (subjectFingerPrint (tbsCertificate icInfo)) = None \<longrightarrow>
              isCertificateRevoked K m cert issuerCertificate =
                Inr BadCertificateRevocationUnknown) \<and>
           (\<forall>found.
              (issuersCrl (thumbs m) (subjectFingerPrint (tbsCertificate icInfo)) = Some found \<or>
               issuersCrl (thumbs m) (subjectFingerPrint (tbsCertificate icInfo)) = None \<and>
               crl (thumbs m) (subjectFingerPrint (tbsCertificate icInfo)) = Some found) \<longrightarrow>
              isCertificateRevoked K m cert issuerCertificate =
                Inr (if serial_looked_up certInfo \<in> dom (serialNumbers found) \<or>
                        (\<exists>d. crl (thumbs m) (direct_index_key certInfo) = Some d \<and>
                             serial_looked_up certInfo \<in> dom (serialNumbers d))
                     then BadCertificateRevoked else Good))))"
  using assms
  by (auto simp: isCertificateRevoked_def isSelfSigned3_def findAssociatedCRLs_def Let_def
      isSelfSigned2_fields revocation_serialNumber_fields revocation_key_fields
      split: option.splits)

lemma example_explore_123:
  "exploreCertificate example_crypto (example_cert 1) = Inr (example_info ''01'' ''R'' ''R'' ''FR'' 1000)"
  "exploreCertificate example_crypto (example_cert 2) = Inr (example_info ''01:02:03'' ''L'' ''R'' ''FL'' 1000)"
  "exploreCertificate example_crypto (example_cert 3) = Inr (example_info ''0A'' ''O'' ''R'' ''FO'' 1000)"
  by (simp_all add: example_crypto_simps example_certs_def)

lemma example_explore_revoked:
  "exploreCertificate example_crypto (example_cert 15) =
     Inr (example_info_v1 ''01:02:03'' ''FV'' 1000)"
  "exploreCertificate example_crypto (example_cert 16) =
     Inr (example_info_aki [] ''E''
            \<lparr>keyIdentifier = Some ''R'', authorityCertIssuerFingerPrint = [],
             serial = Some ''01:02:03''\<rparr> ''FS'')"
  "exploreCertificate example_crypto (example_cert 17) =
     Inr (example_info ''0C'' ''W'' ''R'' ''FW'' 1000)"
  "exploreCertificate example_crypto (example_cert 18) =
     Inr (example_info_aki ''0C'' ''Y''
            \<lparr>keyIdentifier = Some ''R'', authorityCertIssuerFingerPrint = ''FR'',
             serial = None\<rparr> ''FY'')"
  by (simp_all add: example_crypto_simps example_certs_def)

lemma example_issuers_root_1:
  "findIssuerCertificate example_crypto example_manager (example_cert 2) = Inr (Some (example_cert 1))"
  "findIssuerCertificate example_crypto example_manager (example_cert 3) = Inr (Some (example_cert 1))"
  "findIssuerCertificate example_crypto example_manager (example_cert 16) = Inr (Some (example_cert 1))"
  "findIssuerCertificate example_crypto example_manager (example_cert 17) = Inr (Some (example_cert 1))"
  "findIssuerCertificate example_crypto example_manager (example_cert 18) = Inr (Some (example_cert 1))"
  by (simp_all add: findIssuerCertificate_def example_defs decoder_defs)

lemma example_fields:
  "same_key_identifiers (example_info sn ski aki subject na) \<longleftrightarrow> ski = aki"
  "sn \<noteq> [] \<Longrightarrow> serial_looked_up (example_info sn ski aki subject na) = sn"
  "direct_index_key (example_info sn ski aki subject na) = ''<unknown>''"
  "subjectFingerPrint (tbsCertificate (example_info sn ski aki subject na)) = subject"
  "same_key_identifiers (example_info_v1 sn subject na)"
  "same_key_identifiers (example_info_aki sn ski a subject) \<longleftrightarrow> Some ski = keyIdentifier a"
  "serial_looked_up (example_info_aki sn ski a subject) =
     (if sn \<noteq> [] then sn else case serial a of None \<Rightarrow> [] | Some s \<Rightarrow> s)"
  "direct_index_key (example_info_aki sn ski a subject) =
     (if authorityCertIssuerFingerPrint a = [] then ''<unknown>''
      else authorityCertIssuerFingerPrint a)"
  by (simp_all add: same_key_identifiers_def serial_looked_up_def direct_index_key_def
      example_info_def example_info_v1_def example_info_aki_def)

text \<open>
  In the example store: the self-signed root 1; certificate 5, whose issuer is missing;
  certificate 8 with its issuer 7 given, for which no CRL is indexed; certificate 2
  with the revoked serial \<open>01:02:03\<close>; certificate 3 with another serial under the same
  issuer; certificate 18, whose serial \<open>0C\<close> is bound in the direct CRL index under
  the issuer fingerprint that its authority key identifier names.
\<close>

theorem isCertificateRevoked_cases_witness:
  "isCertificateRevoked example_crypto example_manager (example_cert 1) None = Inr Good \<and>
   isCertificateRevoked example_crypto example_manager (example_cert 5) None =
     Inr BadCertificateChainIncomplete \<and>
   isCertificateRevoked example_crypto example_manager (example_cert 8) (Some (example_cert 7)) =
     Inr BadCertificateRevocationUnknown \<and>
   isCertificateRevoked example_crypto example_manager (example_cert 2) None =
     Inr BadCertificateRevoked \<and>
   isCertificateRevoked example_crypto example_manager (example_cert 3) None = Inr Good \<and>
   isCertificateRevoked example_crypto example_manager (example_cert 18) None =
     Inr BadCertificateRevoked"
  using
    isCertificateRevoked_cases [of example_crypto "example_cert 1"
      "example_info ''01'' ''R'' ''R'' ''FR'' 1000" example_manager None]
    isCertificateRevoked_cases [of example_crypto "example_cert 5"
      "example_info ''05'' ''X'' ''Z'' ''FX'' 1000" example_manager None]
    isCertificateRevoked_cases [of example_crypto "example_cert 8"
      "example_info ''08'' ''D2'' ''R2'' ''FD2'' 1000" example_manager "Some (example_cert 7)"]
    isCertificateRevoked_cases [of example_crypto "example_cert 2"
      "example_info ''01:02:03'' ''L'' ''R'' ''FL'' 1000" example_manager None]
    isCertificateRevoked_cases [of example_crypto "example_cert 3"
      "example_info ''0A'' ''O'' ''R'' ''FO'' 1000" example_manager None]
    isCertificateRevoked_cases [of example_crypto "example_cert 18"
      "example_info_aki ''0C'' ''Y''
         \<lparr>keyIdentifier = Some ''R'', authorityCertIssuerFingerPrint = ''FR'',
          serial = None\<rparr> ''FY''" example_manager None]
  by (simp add: example_explore example_explore_chain example_explore_123
      example_explore_revoked example_issuer_5 example_issuers_root_1 example_fields
      example_manager_simps)

lemma example_revoked_15:
  "isCertificateRevoked example_crypto example_manager (example_cert 15)
     (Some (example_cert 1)) = Inr Good"
  by (simp add: isCertificateRevoked_def isSelfSigned3_def example_explore_revoked
      example_info_v1_def decoder_defs)

lemma example_revoked_16:
  "isCertificateRevoked example_crypto example_manager (example_cert 16) None =
     Inr BadCertificateRevoked"
  by (simp add: isCertificateRevoked_def isSelfSigned3_def example_explore_revoked
      example_explore_123 example_issuers_root_1 findAssociatedCRLs_def
      revocation_serialNumber_def revocation_key_def example_info_aki_def example_info_def
      decoder_defs example_manager_simps)

lemma example_revoked_17:
  "isCertificateRevoked example_crypto example_manager (example_cert 17) None = Inr Good"
  by (simp add: isCertificateRevoked_def isSelfSigned3_def example_explore_revoked
      example_explore_123 example_issuers_root_1 findAssociatedCRLs_def
      revocation_serialNumber_def revocation_key_def example_info_def
      decoder_defs example_manager_simps)

lemma example_revocation_dates:
  "revocation_date Index_issuersCrl example_manager ''FR'' ''01:02:03'' = Some (Date_at 50)"
  "revocation_date Index_crl example_manager ''FR'' ''0C'' = Some (Date_at 60)"
  "revocation_date ix example_manager fingerprint [] = None"
  by (simp_all add: revocation_date_def example_manager_simps split: crl_index.splits)

text \<open>
  Claim C3 as first stated calls a certificate self-signed when its subject key
  identifier equals the key identifier of its authority key identifier, and has every
  other certificate revoked when its serial number is in the issuer-keyed or in the
  direct CRL index. Certificate 15 has no extensions, hence no key identifiers, and
  its serial number \<open>01:02:03\<close> is revoked for root 1, given as its issuer: the answer
  is \<open>Good\<close>. Certificate 16 has an empty serial number, which no map binds: the answer
  is \<open>BadCertificateRevoked\<close>, for the serial that its authority key identifier names.
  Certificate 17, issued by root 1, has the serial number \<open>0C\<close>, which the direct CRL
  index binds under the fingerprint of root 1: the answer is \<open>Good\<close>, because the
  issuers' CRL index has a map for root 1 too and the certificate's authority key
  identifier names no issuer fingerprint.
\<close>

theorem isCertificateRevoked_counterexample:
  "exploreCertificate example_crypto (example_cert 15) =
     Inr (example_info_v1 ''01:02:03'' ''FV'' 1000) \<and>
   extensions (tbsCertificate (example_info_v1 ''01:02:03'' ''FV'' 1000)) = None \<and>
   serialNumber (tbsCertificate (example_info_v1 ''01:02:03'' ''FV'' 1000)) = ''01:02:03'' \<and>
   (\<exists>info. exploreCertificate example_crypto (example_cert 1) = Inr info \<and>
      subjectFingerPrint (tbsCertificate info) = ''FR'') \<and>
   revocation_date Index_issuersCrl example_manager ''FR'' ''01:02:03'' = Some (Date_at 50) \<and>
   isCertificateRevoked example_crypto example_manager (example_cert 15)
     (Some (example_cert 1)) = Inr Good \<and>
   (\<exists>info. exploreCertificate example_crypto (example_cert 16) = Inr info \<and>
      serialNumber (tbsCertificate info) = []) \<and>
   (\<forall>ix fingerprint. revocation_date ix example_manager fingerprint [] = None) \<and>
   isCertificateRevoked example_crypto example_manager (example_cert 16) None =
     Inr BadCertificateRevoked \<and>
   (\<exists>info. exploreCertificate example_crypto (example_cert 17) = Inr info \<and>
      serialNumber (tbsCertificate info) = ''0C'') \<and>
   findIssuerCertificate example_crypto example_manager (example_cert 17) =
     Inr (Some (example_cert 1)) \<and>
   revocation_date Index_crl example_manager ''FR'' ''0C'' = Some (Date_at 60) \<and>
   isCertificateRevoked example_crypto example_manager (example_cert 17) None = Inr Good"
  by (simp add: example_explore_revoked example_revoked_15 example_revoked_16
      example_revoked_17 example_revocation_dates example_issuers_root_1
      example_explore_123 example_info_v1_def example_info_aki_def example_info_def)

section \<open>Paths\<close>

lemma split_path_not_Nil [simp]: "split_path p \<noteq> []"
  by (induction p) (auto split: list.splits)

lemma split_path_append: "split_path (a @ CHR ''/'' # b) = split_path a @ split_path b"
  by (induction a) (auto split: list.splits)

lemma split_path_plain: "CHR ''/'' \<notin> set p \<Longrightarrow> split_path p = [p]"
  by (induction p) auto

lemma split_path_no_slash: "s \<in> set (split_path p) \<Longrightarrow> CHR ''/'' \<notin> set s"
  by (induction p arbitrary: s) (auto split: if_splits list.splits)

lemma join_segments_snoc:
  "segs \<noteq> [] \<Longrightarrow> join_segments (segs @ [s]) = join_segments segs @ ''/'' @ s"
  by (induction segs rule: join_segments.induct) auto

lemma join_segments_not_Nil: "segs \<noteq> [] \<Longrightarrow> [] \<notin> set segs \<Longrightarrow> join_segments segs \<noteq> []"
  by (induction segs rule: join_segments.induct) auto

lemma hd_join_segments:
  "segs \<noteq> [] \<Longrightarrow> [] \<notin> set segs \<Longrightarrow> hd (join_segments segs) = hd (hd segs)"
  by (induction segs rule: join_segments.induct) auto

lemma split_path_join_segments:
  "segs \<noteq> [] \<Longrightarrow> \<forall>s \<in> set segs. CHR ''/'' \<notin> set s \<Longrightarrow> split_path (join_segments segs) = segs"
proof (induction segs rule: join_segments.induct)
  case 1
  then show ?case by simp
next
  case (2 seg)
  then show ?case by (simp add: split_path_plain)
next
  case (3 seg seg' segs)
  have "split_path (seg @ CHR ''/'' # join_segments (seg' # segs)) =
          split_path seg @ split_path (join_segments (seg' # segs))"
    by (rule split_path_append)
  then show ?case using 3 by (simp add: split_path_plain)
qed

lemma dropWhile_replicate_form:
  assumes P: "\<And>s. P s \<Longrightarrow> s \<noteq> x"
  shows "(let rest = dropWhile (\<lambda>s. s = x) segs
          in (rest = segs \<or> allow) \<and> (\<forall>s \<in> set rest. P s)) \<longleftrightarrow>
         (\<exists>k rest. segs = replicate k x @ rest \<and> (k = 0 \<or> allow) \<and> (\<forall>s \<in> set rest. P s))"
    (is "?lhs \<longleftrightarrow> ?rhs")
proof
  assume n: ?lhs
  let ?front = "takeWhile (\<lambda>s. s = x) segs" and ?rest = "dropWhile (\<lambda>s. s = x) segs"
  have "\<forall>s \<in> set ?front. s = x" by (auto dest: set_takeWhileD)
  then have f: "replicate (length ?front) x = ?front" by (rule replicate_length_same)
  have "segs = replicate (length ?front) x @ ?rest" unfolding f by simp
  moreover have "length ?front = 0 \<or> allow"
  proof (cases "?rest = segs")
    case True
    then have "length ?front + length segs = length segs"
      using takeWhile_dropWhile_id [of "\<lambda>s. s = x" segs] by (metis length_append)
    then show ?thesis by simp
  next
    case False
    then show ?thesis using n by (simp add: Let_def)
  qed
  moreover have "\<forall>s \<in> set ?rest. P s"
    using n by (simp add: Let_def)
  ultimately show ?rhs by blast
next
  assume ?rhs
  then obtain k rest where segs: "segs = replicate k x @ rest" and k: "k = 0 \<or> allow"
    and rest: "\<forall>s \<in> set rest. P s"
    by blast
  have r: "dropWhile (\<lambda>s. s = x) rest = rest"
  proof (cases rest)
    case Nil
    then show ?thesis by simp
  next
    case (Cons a as)
    then have "a \<noteq> x" using rest P by simp
    then show ?thesis using Cons by simp
  qed
  have d: "dropWhile (\<lambda>s. s = x) segs = rest"
    unfolding segs using r by (simp add: dropWhile_append)
  have "rest = segs" if "k = 0" using that segs by simp
  then show ?lhs
    unfolding Let_def d using k rest by blast
qed

lemma normal_segments_iff:
  "normal_segments allow segs \<longleftrightarrow>
     (\<exists>k rest. segs = replicate k ''..'' @ rest \<and> (k = 0 \<or> allow) \<and>
        (\<forall>s \<in> set rest. s \<noteq> [] \<and> s \<noteq> ''.'' \<and> s \<noteq> ''..''))"
  unfolding normal_segments_def
  by (rule dropWhile_replicate_form
      [where x = "''..''" and P = "\<lambda>s. s \<noteq> [] \<and> s \<noteq> ''.'' \<and> s \<noteq> ''..''"]) blast

lemma normal_segments_Nil [simp]: "normal_segments allow []"
  by (simp add: normal_segments_def)

lemma normal_segments_not_empty:
  assumes "normal_segments allow segs"
  shows "[] \<notin> set segs"
proof
  assume e: "[] \<in> set segs"
  from assms obtain k rest where segs: "segs = replicate k ''..'' @ rest"
    and rest: "\<forall>s \<in> set rest. s \<noteq> [] \<and> s \<noteq> ''.'' \<and> s \<noteq> ''..''"
    unfolding normal_segments_iff by blast
  from e segs have "[] \<in> set (replicate k ''..'') \<or> [] \<in> set rest" by simp
  then show False
  proof
    assume "[] \<in> set (replicate k ''..'')"
    then have "[] = ''..''" by (simp only: in_set_replicate)
    then show False by simp
  next
    assume "[] \<in> set rest"
    then show False using rest by blast
  qed
qed

lemma normal_segments_snoc:
  "normal_segments allow segs \<Longrightarrow> s \<noteq> [] \<Longrightarrow> s \<noteq> ''.'' \<Longrightarrow> s \<noteq> ''..'' \<Longrightarrow>
   normal_segments allow (segs @ [s])"
  unfolding normal_segments_iff
  by (elim exE conjE) (rule_tac x = k in exI, rule_tac x = "rest @ [s]" in exI, auto)

lemma normalize_segment_normal:
  assumes "normal_segments allow res"
  shows "normal_segments allow (normalize_segment allow res seg)"
proof -
  from assms obtain k rest where res: "res = replicate k ''..'' @ rest"
    and k: "k = 0 \<or> allow"
    and rest: "\<forall>s \<in> set rest. s \<noteq> [] \<and> s \<noteq> ''.'' \<and> s \<noteq> ''..''"
    unfolding normal_segments_iff by blast
  consider (skip) "seg = [] \<or> seg = ''.''" | (up) "seg = ''..''"
    | (plain) "seg \<noteq> []" "seg \<noteq> ''.''" "seg \<noteq> ''..''" by blast
  then show ?thesis
  proof cases
    case skip
    then show ?thesis using assms by (auto simp: normalize_segment_def)
  next
    case plain
    then show ?thesis using normal_segments_snoc [OF assms, of seg]
      by (simp add: normalize_segment_def)
  next
    case up
    show ?thesis
    proof (cases "rest = []")
      case True
      then have r: "res = replicate k ''..''" using res by simp
      then have "\<not> (res \<noteq> [] \<and> last res \<noteq> ''..'')" by (cases k) auto
      moreover have "normal_segments allow (res @ [''..''])" if allow
        unfolding normal_segments_iff r using that
        by (intro exI [of _ "Suc k"] exI [of _ "[]"]) (simp add: replicate_append_same)
      ultimately show ?thesis using up assms by (auto simp: normalize_segment_def)
    next
      case False
      then have l: "last res \<noteq> ''..''" and ne: "res \<noteq> []" using res rest by auto
      have "butlast res = replicate k ''..'' @ butlast rest"
        using False res by (simp add: butlast_append)
      moreover have "\<forall>s \<in> set (butlast rest). s \<noteq> [] \<and> s \<noteq> ''.'' \<and> s \<noteq> ''..''"
        using rest by (auto dest: in_set_butlastD)
      ultimately have "normal_segments allow (butlast res)"
        unfolding normal_segments_iff using k by blast
      then show ?thesis using up l ne by (simp add: normalize_segment_def)
    qed
  qed
qed

lemma foldl_normalize_normal:
  "normal_segments allow res \<Longrightarrow>
   normal_segments allow (foldl (normalize_segment allow) res segs)"
  by (induction segs arbitrary: res) (simp_all add: normalize_segment_normal)

lemma normalize_segment_set:
  "set (normalize_segment allow res seg) \<subseteq> set res \<union> {seg, ''..''}"
  by (auto simp: normalize_segment_def dest: in_set_butlastD)

lemma foldl_normalize_set:
  "set (foldl (normalize_segment allow) res segs) \<subseteq> set res \<union> set segs \<union> {''..''}"
proof (induction segs arbitrary: res)
  case Nil
  then show ?case by auto
next
  case (Cons seg segs)
  show ?case using Cons.IH [of "normalize_segment allow res seg"]
      normalize_segment_set [of allow res seg] by auto
qed

lemma normal_segments_butlast:
  "normal_segments allow (segs @ [s]) \<Longrightarrow> normal_segments allow segs"
proof -
  assume "normal_segments allow (segs @ [s])"
  then obtain k rest where e: "segs @ [s] = replicate k ''..'' @ rest"
    and k: "k = 0 \<or> allow"
    and rest: "\<forall>s \<in> set rest. s \<noteq> [] \<and> s \<noteq> ''.'' \<and> s \<noteq> ''..''"
    unfolding normal_segments_iff by blast
  show ?thesis
  proof (cases "rest = []")
    case True
    then have "segs @ [s] = replicate k ''..''" using e by simp
    then obtain k' where "k = Suc k'" by (cases k) auto
    then have "segs @ [s] = replicate k' ''..'' @ [''..'']"
      using \<open>segs @ [s] = replicate k ''..''\<close> by (simp add: replicate_append_same)
    then have "segs = replicate k' ''..''" by simp
    then show ?thesis unfolding normal_segments_iff using k \<open>k = Suc k'\<close>
      by (intro exI [of _ k'] exI [of _ "[]"]) auto
  next
    case False
    then have "segs @ [s] = (replicate k ''..'' @ butlast rest) @ [last rest]"
      using e by simp
    then have "segs = replicate k ''..'' @ butlast rest" by (simp only: append1_eq_conv)
    moreover have "\<forall>s \<in> set (butlast rest). s \<noteq> [] \<and> s \<noteq> ''.'' \<and> s \<noteq> ''..''"
      using rest by (auto dest: in_set_butlastD)
    ultimately show ?thesis unfolding normal_segments_iff using k by blast
  qed
qed

lemma normalize_segment_stable:
  assumes "normal_segments allow (segs @ [s])"
  shows "normalize_segment allow segs s = segs @ [s]"
proof -
  from assms obtain k rest where e: "segs @ [s] = replicate k ''..'' @ rest"
    and k: "k = 0 \<or> allow"
    and rest: "\<forall>s \<in> set rest. s \<noteq> [] \<and> s \<noteq> ''.'' \<and> s \<noteq> ''..''"
    unfolding normal_segments_iff by blast
  show ?thesis
  proof (cases "rest = []")
    case True
    then have all: "segs @ [s] = replicate k ''..''" using e by simp
    then obtain k' where k': "k = Suc k'" by (cases k) auto
    then have "segs @ [s] = replicate k' ''..'' @ [''..'']"
      using all by (simp add: replicate_append_same)
    then have s: "s = ''..''" and segs: "segs = replicate k' ''..''" by simp_all
    have "\<not> (segs \<noteq> [] \<and> last segs \<noteq> ''..'')" using segs by (cases k') auto
    then show ?thesis using s k k' by (auto simp: normalize_segment_def)
  next
    case False
    then have "segs @ [s] = (replicate k ''..'' @ butlast rest) @ [last rest]"
      using e by simp
    then have "s = last rest" by (simp only: append1_eq_conv)
    then have "s \<in> set rest" using False by simp
    then show ?thesis using rest by (auto simp: normalize_segment_def)
  qed
qed

lemma foldl_normalize_stable:
  "normal_segments allow segs \<Longrightarrow> foldl (normalize_segment allow) [] segs = segs"
proof (induction segs rule: rev_induct)
  case Nil
  then show ?case by simp
next
  case (snoc s segs)
  from normal_segments_butlast [OF snoc.prems] snoc.IH
  have "foldl (normalize_segment allow) [] segs = segs" by simp
  then show ?case using normalize_segment_stable [OF snoc.prems] by simp
qed

text \<open>
  Joining a plain file name to a folder in normal form (an optional leading slash,
  then segments in normal form and without slash) appends it after a slash.
\<close>

lemma path_join_plain:
  assumes segs: "segs \<noteq> []" "normal_segments (\<not> isAbsolute) segs"
      "\<forall>s \<in> set segs. CHR ''/'' \<notin> set s"
    and d: "d = (if isAbsolute then ''/'' else []) @ join_segments segs"
    and fl: "CHR ''/'' \<notin> set fname" "fname \<noteq> []" "fname \<noteq> ''.''" "fname \<noteq> ''..''"
  shows "path_join d fname = d @ ''/'' @ fname"
proof -
  let ?path = "d @ ''/'' @ fname"
  have ne: "[] \<notin> set segs" using segs(2) by (rule normal_segments_not_empty)
  have j: "join_segments segs \<noteq> []" using segs(1) ne by (rule join_segments_not_Nil)
  have dne: "d \<noteq> []" using d j by simp
  have hdj: "hd (join_segments segs) \<noteq> CHR ''/''"
  proof -
    have "hd segs \<in> set segs" using segs(1) by simp
    then have "hd segs \<noteq> []" and "CHR ''/'' \<notin> set (hd segs)" using ne segs(3) by auto
    then have "hd (hd segs) \<noteq> CHR ''/''" by (cases "hd segs") auto
    then show ?thesis using hd_join_segments [OF segs(1) ne] by simp
  qed
  have abs: "(hd ?path = CHR ''/'') = isAbsolute" using d j hdj by auto
  have "last fname \<noteq> CHR ''/''" using fl(1,2) by (metis last_in_set)
  then have trail: "last ?path \<noteq> CHR ''/''" using fl(2) by simp
  have sj: "split_path (join_segments segs) = segs"
    using segs(1,3) by (rule split_path_join_segments)
  have sd: "split_path d = (if isAbsolute then [[]] else []) @ segs"
    using split_path_append [of "[]" "join_segments segs"] d sj by auto
  have "split_path ?path = split_path d @ split_path fname"
    using split_path_append [of d fname] by simp
  then have sp: "split_path ?path = (if isAbsolute then [[]] else []) @ segs @ [fname]"
    using sd fl(1) by (simp add: split_path_plain)
  have nf: "normal_segments (\<not> isAbsolute) (segs @ [fname])"
    using segs(2) fl(2-4) by (rule normal_segments_snoc)
  have "normalizeString ?path (\<not> isAbsolute) =
          foldl (normalize_segment (\<not> isAbsolute)) [] (segs @ [fname])"
    unfolding normalizeString_def sp by (simp add: normalize_segment_def)
  then have ns: "normalizeString ?path (\<not> isAbsolute) = segs @ [fname]"
    using foldl_normalize_stable [OF nf] by simp
  have js: "join_segments (segs @ [fname]) = join_segments segs @ ''/'' @ fname"
    using segs(1) by (rule join_segments_snoc)
  have "posix_normalize ?path = ?path"
    unfolding posix_normalize_def Let_def abs ns js using trail j d by simp
  then show ?thesis using dne fl(2) by (simp add: path_join_def)
qed

text \<open>The rejected folder is in normal form, whatever the location of the PKI.\<close>

lemma rejectedFolder_normal:
  "\<exists>isAbsolute segs. segs \<noteq> [] \<and> normal_segments (\<not> isAbsolute) segs \<and>
      (\<forall>s \<in> set segs. CHR ''/'' \<notin> set s) \<and>
      rejectedFolder m = (if isAbsolute then ''/'' else []) @ join_segments segs"
proof -
  define loc where "loc = location m"
  define path where "path = (if loc = [] then ''rejected'' else loc @ ''/'' @ ''rejected'')"
  define isAbsolute where "isAbsolute = (hd path = CHR ''/'')"
  define X where "X = foldl (normalize_segment (\<not> isAbsolute)) []
                        (if loc = [] then [] else split_path loc)"
  have sp: "split_path path = (if loc = [] then [] else split_path loc) @ [''rejected'']"
    using split_path_append [of loc "''rejected''"]
    by (simp add: path_def split_path_plain)
  have Xn: "normal_segments (\<not> isAbsolute) X"
    unfolding X_def by (rule foldl_normalize_normal) simp
  have ns: "normalizeString path (\<not> isAbsolute) = X @ [''rejected'']"
    unfolding normalizeString_def sp X_def by (simp add: normalize_segment_def)
  have nf: "normal_segments (\<not> isAbsolute) (X @ [''rejected''])"
    using Xn by (rule normal_segments_snoc) simp_all
  have slash: "\<forall>s \<in> set (X @ [''rejected'']). CHR ''/'' \<notin> set s"
  proof
    fix s assume "s \<in> set (X @ [''rejected''])"
    then have "s \<in> set (if loc = [] then [] else split_path loc) \<union> {''..'', ''rejected''}"
      using foldl_normalize_set [of "\<not> isAbsolute" "[]" "if loc = [] then [] else split_path loc"]
      unfolding X_def by auto
    then show "CHR ''/'' \<notin> set s" by (auto dest: split_path_no_slash split: if_splits)
  qed
  have j: "join_segments (X @ [''rejected'']) \<noteq> []"
    by (rule join_segments_not_Nil) (use nf in \<open>auto dest: normal_segments_not_empty\<close>)
  have pne: "path \<noteq> []" by (simp add: path_def)
  have trail: "last path \<noteq> CHR ''/''" by (simp add: path_def)
  have "posix_normalize path =
          (if isAbsolute then ''/'' else []) @ join_segments (X @ [''rejected''])"
    unfolding posix_normalize_def Let_def isAbsolute_def [symmetric] ns
    using pne trail j by simp
  moreover have "rejectedFolder m = posix_normalize path"
    by (simp add: rejectedFolder_def path_join_def path_def loc_def)
  ultimately show ?thesis
    using nf slash by (intro exI [of _ isAbsolute] exI [of _ "X @ [''rejected'']"]) simp
qed

lemma rejected_file_name:
  assumes "plain_file_name (base @ ''.pem'')"
  shows "path_join (rejectedFolder m) (base @ ''.pem'') = rejectedFolder m @ ''/'' @ base @ ''.pem''"
proof -
  from rejectedFolder_normal [of m] obtain isAbsolute segs where
    "segs \<noteq> []" "normal_segments (\<not> isAbsolute) segs" "\<forall>s \<in> set segs. CHR ''/'' \<notin> set s"
    "rejectedFolder m = (if isAbsolute then ''/'' else []) @ join_segments segs"
    by blast
  moreover have "2 < length (base @ ''.pem'')" by simp
  then have "base @ ''.pem'' \<noteq> []" "base @ ''.pem'' \<noteq> ''.''" "base @ ''.pem'' \<noteq> ''..''"
    by (auto simp del: length_append)
  ultimately show ?thesis
    using assms path_join_plain [of segs isAbsolute "rejectedFolder m" "base @ ''.pem''"]
    by (simp add: plain_file_name_def)
qed

section \<open>The status of an unknown certificate\<close>

lemma map_of_AList_update:
  "map_of (AList_update k v al) k = Some v"
proof (cases "k \<in> fst ` set al")
  case True
  then show ?thesis
    by (induction al) (auto simp: AList_update_def)
next
  case False
  then have "map_of al k = None" by (simp add: map_of_eq_None_iff)
  then show ?thesis using False by (simp add: AList_update_def map_add_def)
qed

text \<open>
  Claim C5, as amended. For a certificate whose fingerprint is in neither the trusted
  nor the rejected map, whose file name (common name, fingerprint in brackets, \<open>.pem\<close>)
  has no path separator in it, and whose file can be written, \<open>getCertificateStatus\<close>
  writes the certificate as PEM to the file of that name in the rejected folder, and
  to no other file, records it in the rejected map and answers \<open>rejected\<close>, now and on
  the next call, whatever the value of \<open>untrustUnknownCertificate\<close>. The flag is read by
  \<open>isCertificateTrusted\<close> only: with the flag off, \<open>isCertificateTrusted\<close> answers \<open>Good\<close>
  for such a certificate and writes nothing.
\<close>

theorem getCertificateStatus_unknown:
  assumes "\<not> in_trusted K m cert" and "\<not> in_rejected K m cert"
    and "plain_file_name (buildIdealCertificateName K cert @ ''.pem'')"
    and "name = rejectedFolder m @ ''/'' @ buildIdealCertificateName K cert @ ''.pem''"
    and "\<not> write_fails (fs m) name"
  shows
    "(\<forall>flag. \<exists>m'.
        getCertificateStatus K (m\<lparr>untrustUnknownCertificate := flag\<rparr>) cert = (Inr Rejected, m') \<and>
        file_content (fs m') = (file_content (fs m))(name \<mapsto> toPem K cert) \<and>
        map_of (rejected (thumbs m')) (makeFingerprint K cert) =
          Some \<lparr>certificate = cert, filename = name\<rparr> \<and>
        getCertificateStatus K m' cert = (Inr Rejected, m')) \<and>
     isCertificateTrusted K (m\<lparr>untrustUnknownCertificate := False\<rparr>) cert =
       (Inr Good, m\<lparr>untrustUnknownCertificate := False\<rparr>)"
proof -
  have st: "checkRejectedOrTrusted K (m\<lparr>untrustUnknownCertificate := flag\<rparr>) cert = Unknown"
    for flag
    using assms(1,2)
    by (simp add: checkRejectedOrTrusted_def in_trusted_def in_rejected_def map_of_eq_None_iff)
  have tr: "isCertificateTrusted K (m\<lparr>untrustUnknownCertificate := False\<rparr>) cert =
       (Inr Good, m\<lparr>untrustUnknownCertificate := False\<rparr>)"
    using assms(1,2)
    by (simp add: isCertificateTrusted_def in_trusted_def in_rejected_def map_of_eq_None_iff)
  have folder: "rejectedFolder (m\<lparr>untrustUnknownCertificate := flag\<rparr>) = rejectedFolder m"
    for flag
    by (simp add: rejectedFolder_def)
  have nm: "path_join (rejectedFolder (m\<lparr>untrustUnknownCertificate := flag\<rparr>))
              (buildIdealCertificateName K cert @ ''.pem'') = name"
    for flag
    unfolding folder assms(4) using assms(3) by (rule rejected_file_name)
  show ?thesis
  proof (intro conjI allI)
    fix flag
    let ?m' = "m\<lparr>untrustUnknownCertificate := flag,
                  thumbs := (thumbs m)\<lparr>rejected :=
                    AList_update (makeFingerprint K cert) \<lparr>certificate = cert, filename = name\<rparr>
                      (rejected (thumbs m))\<rparr>,
                  fs := (fs m)\<lparr>file_content := (file_content (fs m))(name \<mapsto> toPem K cert)\<rparr>\<rparr>"
    have 1: "getCertificateStatus K (m\<lparr>untrustUnknownCertificate := flag\<rparr>) cert =
        (Inr Rejected, ?m')"
      using assms(5) by (simp add: getCertificateStatus_def st nm fs_writeFile_def Let_def)
    have 2: "checkRejectedOrTrusted K ?m' cert = Rejected"
      by (simp add: checkRejectedOrTrusted_def map_of_AList_update)
    have 3: "getCertificateStatus K ?m' cert = (Inr Rejected, ?m')"
      by (simp add: getCertificateStatus_def 2)
    show "\<exists>m'. getCertificateStatus K (m\<lparr>untrustUnknownCertificate := flag\<rparr>) cert =
             (Inr Rejected, m') \<and>
           file_content (fs m') = (file_content (fs m))(name \<mapsto> toPem K cert) \<and>
           map_of (rejected (thumbs m')) (makeFingerprint K cert) =
             Some \<lparr>certificate = cert, filename = name\<rparr> \<and>
           getCertificateStatus K m' cert = (Inr Rejected, m')"
      using 1 3 by (intro exI [of _ ?m']) (simp add: map_of_AList_update)
  next
    show "isCertificateTrusted K (m\<lparr>untrustUnknownCertificate := False\<rparr>) cert =
       (Inr Good, m\<lparr>untrustUnknownCertificate := False\<rparr>)" by (rule tr)
  qed
qed

lemma example_rejectedFolder:
  "rejectedFolder (example_manager\<lparr>untrustUnknownCertificate := flag\<rparr>) = ''pki/rejected''"
  by (simp add: rejectedFolder_def path_join_def posix_normalize_def normalizeString_def
      normalize_segment_def example_manager_simps)

lemma example_fingerprint_13: "makeFingerprint example_crypto (example_cert 13) = ''FU''"
  by (simp add: example_crypto_simps example_certs_def example_info_v1_def)

lemma example_name_13:
  "buildIdealCertificateName example_crypto (example_cert 13) @ ''.pem'' = ''FU[FU].pem''"
  by (simp add: buildIdealCertificateName_def example_fingerprint_13 example_explore
      example_info_v1_def)

lemma example_path_13:
  "path_join ''pki/rejected'' ''FU[FU].pem'' = ''pki/rejected/FU[FU].pem''"
  by (simp add: path_join_def posix_normalize_def normalizeString_def normalize_segment_def)

text \<open>Certificate 13 of the example store, seen for the first time.\<close>

theorem getCertificateStatus_unknown_witness:
  "\<exists>m'. getCertificateStatus example_crypto example_manager (example_cert 13) = (Inr Rejected, m') \<and>
      file_content (fs m') = [''pki/rejected/FU[FU].pem'' \<mapsto> ''PEM''] \<and>
      map_of (rejected (thumbs m')) ''FU'' =
        Some \<lparr>certificate = example_cert 13, filename = ''pki/rejected/FU[FU].pem''\<rparr> \<and>
      getCertificateStatus example_crypto m' (example_cert 13) = (Inr Rejected, m')"
proof -
  have w: "\<not> write_fails (fs example_manager) ''pki/rejected/FU[FU].pem''"
    by (simp add: example_manager_def)
  have p: "plain_file_name (buildIdealCertificateName example_crypto (example_cert 13) @ ''.pem'')"
    by (simp add: example_name_13 plain_file_name_def)
  have n: "''pki/rejected/FU[FU].pem'' =
      rejectedFolder example_manager @ ''/'' @
        buildIdealCertificateName example_crypto (example_cert 13) @ ''.pem''"
    using example_rejectedFolder [of True]
    by (simp add: example_name_13 example_manager_def)
  have t: "\<not> in_trusted example_crypto example_manager (example_cert 13)"
    by (simp add: example_in_trusted)
  have e: "example_manager\<lparr>untrustUnknownCertificate := True\<rparr> = example_manager"
    by (simp add: example_manager_def)
  have f: "file_content (fs example_manager) = Map.empty"
    by (simp add: example_manager_def)
  from getCertificateStatus_unknown [OF t example_in_rejected p n w, THEN conjunct1,
      THEN spec, of True]
  show ?thesis
    by (simp add: e f example_fingerprint_13 example_crypto_simps(4))
qed

lemma example_status_13:
  "checkRejectedOrTrusted example_crypto (example_manager\<lparr>untrustUnknownCertificate := flag\<rparr>)
     (example_cert 13) = Unknown"
  by (simp add: checkRejectedOrTrusted_def example_fingerprint_13 example_manager_simps
      example_entry_def example_crypto_simps example_certs_def example_defs)

lemma example_first_sighting:
  "getCertificateStatus example_crypto (example_manager\<lparr>untrustUnknownCertificate := flag\<rparr>)
     (example_cert 13) =
   (Inr Rejected,
    example_manager
      \<lparr>untrustUnknownCertificate := flag,
       thumbs := (thumbs example_manager)
         \<lparr>rejected := [(''FU'', \<lparr>certificate = example_cert 13,
                                 filename = ''pki/rejected/FU[FU].pem''\<rparr>)]\<rparr>,
       fs := (fs example_manager)
         \<lparr>file_content := [''pki/rejected/FU[FU].pem'' \<mapsto> ''PEM'']\<rparr>\<rparr>)"
proof -
  have w: "fs_writeFile (fs example_manager) ''pki/rejected/FU[FU].pem'' ''PEM'' =
      Inr ((fs example_manager)\<lparr>file_content := [''pki/rejected/FU[FU].pem'' \<mapsto> ''PEM'']\<rparr>)"
    by (simp add: fs_writeFile_def example_manager_def)
  show ?thesis
    unfolding getCertificateStatus_def example_status_13 Let_def example_rejectedFolder
      example_name_13 example_path_13 example_fingerprint_13
    by (simp add: w example_crypto_simps(4) example_manager_simps AList_update_def)
qed

lemma example_fingerprint_19: "makeFingerprint example_crypto (example_cert 19) = ''FT''"
  by (simp add: example_crypto_simps example_certs_def example_info_named_def)

lemma example_name_19:
  "buildIdealCertificateName example_crypto (example_cert 19) @ ''.pem'' =
     ''../trusted/certs/x[FT].pem''"
  by (simp add: buildIdealCertificateName_def example_fingerprint_19 example_crypto_simps(1)
      example_certs_def example_info_named_def)

lemma example_path_19:
  "path_join ''pki/rejected'' ''../trusted/certs/x[FT].pem'' = ''pki/trusted/certs/x[FT].pem''"
  by (simp add: path_join_def posix_normalize_def normalizeString_def normalize_segment_def)

lemma example_status_19:
  "checkRejectedOrTrusted example_crypto example_manager (example_cert 19) = Unknown"
  by (simp add: checkRejectedOrTrusted_def example_fingerprint_19 example_manager_simps
      example_entry_def example_crypto_simps example_certs_def example_defs)

lemma example_first_sighting_19:
  "getCertificateStatus example_crypto example_manager (example_cert 19) =
   (Inr Rejected,
    example_manager
      \<lparr>thumbs := (thumbs example_manager)
         \<lparr>rejected := [(''FT'', \<lparr>certificate = example_cert 19,
                                 filename = ''pki/trusted/certs/x[FT].pem''\<rparr>)]\<rparr>,
       fs := (fs example_manager)
         \<lparr>file_content := [''pki/trusted/certs/x[FT].pem'' \<mapsto> ''PEM'']\<rparr>\<rparr>)"
proof -
  have w: "fs_writeFile (fs example_manager) ''pki/trusted/certs/x[FT].pem'' ''PEM'' =
      Inr ((fs example_manager)\<lparr>file_content := [''pki/trusted/certs/x[FT].pem'' \<mapsto> ''PEM'']\<rparr>)"
    by (simp add: fs_writeFile_def example_manager_def)
  have r: "rejectedFolder example_manager = ''pki/rejected''"
    using example_rejectedFolder [of True] by (simp add: example_manager_def)
  show ?thesis
    unfolding getCertificateStatus_def example_status_19 Let_def r
      example_name_19 example_path_19 example_fingerprint_19
    by (simp add: w example_crypto_simps(4) example_manager_simps AList_update_def)
qed

text \<open>
  Claim C5 as first stated lets the flag switch the first-sighting persistence of
  \<open>getCertificateStatus\<close> off, and has every unknown certificate written into the
  rejected folder. With the flag off, certificate 13 is still written to the rejected
  folder, recorded in the rejected map and reported \<open>rejected\<close>. Certificate 19, whose
  common name is \<open>../trusted/certs/x\<close>, is reported \<open>rejected\<close> and written to a file
  of the trusted folder, not of the rejected folder \<open>pki/rejected\<close>.
\<close>

theorem getCertificateStatus_counterexample:
  "\<not> in_trusted example_crypto (example_manager\<lparr>untrustUnknownCertificate := False\<rparr>) (example_cert 13) \<and>
   \<not> in_rejected example_crypto (example_manager\<lparr>untrustUnknownCertificate := False\<rparr>) (example_cert 13) \<and>
   fst (getCertificateStatus example_crypto
          (example_manager\<lparr>untrustUnknownCertificate := False\<rparr>) (example_cert 13)) = Inr Rejected \<and>
   file_content (fs (snd (getCertificateStatus example_crypto
          (example_manager\<lparr>untrustUnknownCertificate := False\<rparr>) (example_cert 13))))
      ''pki/rejected/FU[FU].pem'' = Some ''PEM'' \<and>
   in_rejected example_crypto (snd (getCertificateStatus example_crypto
          (example_manager\<lparr>untrustUnknownCertificate := False\<rparr>) (example_cert 13)))
      (example_cert 13) \<and>
   \<not> in_trusted example_crypto example_manager (example_cert 19) \<and>
   \<not> in_rejected example_crypto example_manager (example_cert 19) \<and>
   rejectedFolder example_manager = ''pki/rejected'' \<and>
   fst (getCertificateStatus example_crypto example_manager (example_cert 19)) = Inr Rejected \<and>
   file_content (fs (snd (getCertificateStatus example_crypto example_manager (example_cert 19)))) =
     [''pki/trusted/certs/x[FT].pem'' \<mapsto> ''PEM'']"
proof -
  have r: "rejectedFolder example_manager = ''pki/rejected''"
    using example_rejectedFolder [of True] by (simp add: example_manager_def)
  have t: "\<not> in_trusted example_crypto example_manager (example_cert 19)"
    by (simp add: in_trusted_def example_fingerprint_19 example_manager_simps
        example_entry_def example_crypto_simps example_certs_def example_defs)
  show ?thesis
    unfolding example_first_sighting example_first_sighting_19
    using example_in_trusted [of 13] example_in_rejected [of "example_cert 13"]
      example_in_rejected [of "example_cert 19"] r t
    by (simp add: in_trusted_def in_rejected_def example_fingerprint_13)
qed

section \<open>Draining the CRL queue\<close>

lemma inject_serialNumbers_eq:
  "inject_serialNumbers rs sn s =
     (case sn s of
        Some d \<Rightarrow> Some d
      | None \<Rightarrow> map_option revocationDate (find (\<lambda>r. userCertificate r = s) rs))"
  by (induction rs arbitrary: sn) (auto split: option.splits)

lemma inject_serialNumbers_kept:
  "sn s = Some d \<Longrightarrow> inject_serialNumbers rs sn s = Some d"
  by (simp add: inject_serialNumbers_eq)

lemma inject_serialNumbers_bound:
  assumes "r \<in> set rs"
  shows "userCertificate r \<in> dom (inject_serialNumbers rs sn)"
proof -
  from assms have "find (\<lambda>x. userCertificate x = userCertificate r) rs \<noteq> None"
    by (auto simp: find_None_iff)
  then show ?thesis
    by (auto simp: inject_serialNumbers_eq dom_def split: option.splits)
qed

lemma get_set_index [simp]:
  "get_index jx (set_index ix v m) = (if jx = ix then v else get_index jx m)"
  by (cases ix; cases jx) (simp_all add: get_index_def set_index_def)

lemma set_index_frame [simp]:
  "queue (set_index ix v m) = queue m"
  "pending_crl_to_process (set_index ix v m) = pending_crl_to_process m"
  "on_crl_process (set_index ix v m) = on_crl_process m"
  by (cases ix; simp add: set_index_def)+

lemma get_index_frame [simp]:
  "get_index ix (m\<lparr>queue := q\<rparr>) = get_index ix m"
  "get_index ix (m\<lparr>pending_crl_to_process := p\<rparr>) = get_index ix m"
  "get_index ix (m\<lparr>on_crl_process := b\<rparr>) = get_index ix m"
  by (cases ix; simp add: get_index_def)+

lemma entries_kept_refl: "entries_kept m m"
  by (simp add: entries_kept_def)

lemma entries_kept_trans: "entries_kept m m1 \<Longrightarrow> entries_kept m1 m2 \<Longrightarrow> entries_kept m m2"
  unfolding entries_kept_def by blast

lemma entries_kept_frame:
  "entries_kept m (m\<lparr>queue := q\<rparr>)"
  "entries_kept m (m\<lparr>pending_crl_to_process := p\<rparr>)"
  "entries_kept m (m\<lparr>on_crl_process := b\<rparr>)"
  by (simp_all add: entries_kept_def)

lemma process_crl_item_kept:
  "process_crl_item K m ix name = Inr m' \<Longrightarrow> entries_kept m m'"
  by (auto simp: process_crl_item_def entries_kept_def Let_def inject_serialNumbers_kept
      split: sum.splits option.splits)

lemma process_crl_item_frame:
  "process_crl_item K m ix name = Inr m' \<Longrightarrow>
   queue m' = queue m \<and> pending_crl_to_process m' = pending_crl_to_process m \<and>
   on_crl_process m' = on_crl_process m"
  by (auto simp: process_crl_item_def Let_def split: sum.splits)

lemma process_crl_item_bound:
  "process_crl_item K m ix name = Inr m' \<Longrightarrow> listed_serials_bound K (ix, name) m'"
  by (auto simp: process_crl_item_def listed_serials_bound_def Let_def inject_serialNumbers_bound
      split: sum.splits)

lemma process_crl_item_fails:
  "process_crl_item K m ix name = Inl e \<Longrightarrow> listed_serials_bound K (ix, name) m''"
  by (auto simp: process_crl_item_def listed_serials_bound_def Let_def split: sum.splits)

lemma listed_serials_bound_kept:
  "listed_serials_bound K item m1 \<Longrightarrow> entries_kept m1 m2 \<Longrightarrow> listed_serials_bound K item m2"
  unfolding listed_serials_bound_def entries_kept_def
  by (auto split: prod.splits sum.splits simp: dom_def) blast

lemma process_crl_step_Cons:
  assumes "queue m = (ix, name) # rest"
  shows "queue (process_crl_step K m) = rest"
    and "pending_crl_to_process (process_crl_step K m) = pending_crl_to_process m - 1"
    and "entries_kept m (process_crl_step K m)"
    and "listed_serials_bound K (ix, name) (process_crl_step K m)"
proof -
  let ?m0 = "m\<lparr>queue := rest\<rparr>"
  show "queue (process_crl_step K m) = rest"
    using assms by (auto simp: process_crl_step_def split: sum.splits dest: process_crl_item_frame)
  show "pending_crl_to_process (process_crl_step K m) = pending_crl_to_process m - 1"
    using assms by (auto simp: process_crl_step_def split: sum.splits dest: process_crl_item_frame)
  show "entries_kept m (process_crl_step K m)"
  proof (cases "process_crl_item K ?m0 ix name")
    case (Inl e)
    then show ?thesis using assms by (simp add: process_crl_step_def entries_kept_def)
  next
    case (Inr m')
    from process_crl_item_kept [OF Inr] have "entries_kept m m'"
      by (simp add: entries_kept_def)
    then show ?thesis using assms Inr by (simp add: process_crl_step_def entries_kept_def)
  qed
  show "listed_serials_bound K (ix, name) (process_crl_step K m)"
  proof (cases "process_crl_item K ?m0 ix name")
    case (Inl e)
    then show ?thesis by (rule process_crl_item_fails)
  next
    case (Inr m')
    from process_crl_item_bound [OF Inr]
    have "listed_serials_bound K (ix, name) (m'\<lparr>pending_crl_to_process := pending_crl_to_process m' - 1\<rparr>)"
      by (rule listed_serials_bound_kept) (rule entries_kept_frame)
    then show ?thesis using assms Inr by (simp add: process_crl_step_def)
  qed
qed

lemma process_next_crl_drains:
  "length (queue m) = Suc n \<Longrightarrow> pending_crl_to_process m = int (Suc n) \<Longrightarrow>
   \<exists>m'. process_next_crl K m = Some m' \<and> entries_kept m m' \<and>
        (\<forall>item \<in> set (queue m). listed_serials_bound K item m')"
proof (induction n arbitrary: m)
  case 0
  then obtain ix name where q: "queue m = [(ix, name)]"
    by (cases "queue m") auto
  let ?m2 = "process_crl_step K m"
  let ?m' = "if on_crl_process ?m2 then ?m2\<lparr>on_crl_process := False\<rparr> else ?m2"
  note step = process_crl_step_Cons [OF q, of K]
  have p0: "pending_crl_to_process ?m2 = 0" using step(2) 0 by simp
  have "process_next_crl K m = Some ?m'"
    by (subst process_next_crl.simps) (simp add: p0 Let_def)
  moreover have k: "entries_kept ?m2 ?m'" by (simp add: entries_kept_refl entries_kept_frame)
  moreover have "entries_kept m ?m'" using step(3) k by (rule entries_kept_trans)
  moreover have "listed_serials_bound K (ix, name) ?m'"
    using step(4) k by (rule listed_serials_bound_kept)
  ultimately show ?case using q by simp
next
  case (Suc n)
  then obtain ix name rest where q: "queue m = (ix, name) # rest" and r: "length rest = Suc n"
    by (cases "queue m") auto
  let ?m2 = "process_crl_step K m"
  note step = process_crl_step_Cons [OF q, of K]
  have p: "pending_crl_to_process ?m2 = int (Suc n)" using step(2) Suc.prems by simp
  have "length (queue ?m2) = Suc n" using step(1) r by simp
  from Suc.IH [OF this p] obtain m' where m': "process_next_crl K ?m2 = Some m'"
    and k: "entries_kept ?m2 m'" and b: "\<forall>item \<in> set (queue ?m2). listed_serials_bound K item m'"
    by blast
  have "process_next_crl K m = Some m'"
    by (subst process_next_crl.simps) (simp add: p m' Let_def)
  moreover have "entries_kept m m'" using step(3) k by (rule entries_kept_trans)
  moreover have "listed_serials_bound K (ix, name) m'"
    using step(4) k by (rule listed_serials_bound_kept)
  ultimately show ?case using q b step(1) by simp
qed

lemma first_date_find:
  "map_option revocationDate (find P rs) = first_date (map revocationDate (filter P rs))"
  by (induction rs) (simp_all add: first_date_def)

lemma first_date_append:
  "first_date (xs @ ys) = (case first_date xs of Some d \<Rightarrow> Some d | None \<Rightarrow> first_date ys)"
  by (cases xs) (simp_all add: first_date_def)

lemma revocation_date_get_index:
  "revocation_date ix m fingerprint s =
     (case get_index ix m fingerprint of None \<Rightarrow> None | Some d \<Rightarrow> serialNumbers d s)"
  by (simp add: revocation_date_def get_index_def split: crl_index.splits)

lemma revocation_date_frame [simp]:
  "revocation_date ix (m\<lparr>queue := q\<rparr>) = revocation_date ix m"
  "revocation_date ix (m\<lparr>pending_crl_to_process := p\<rparr>) = revocation_date ix m"
  "revocation_date ix (m\<lparr>on_crl_process := b\<rparr>) = revocation_date ix m"
  by (cases ix; simp add: revocation_date_def fun_eq_iff)+

lemma process_crl_item_dates:
  assumes "process_crl_item K m ix name = Inr m'"
  shows "revocation_date jx m' fingerprint s =
     (case revocation_date jx m fingerprint s of
        Some d \<Rightarrow> Some d
      | None \<Rightarrow> first_date (item_dates K (ix, name) jx fingerprint s))"
  using assms
  by (auto simp: process_crl_item_def revocation_date_get_index item_dates_def Let_def
      inject_serialNumbers_eq first_date_find first_date_def
      split: sum.splits option.splits)

lemma process_crl_item_no_dates:
  "process_crl_item K m ix name = Inl e \<Longrightarrow> item_dates K (ix, name) jx fingerprint s = []"
  by (auto simp: process_crl_item_def item_dates_def Let_def split: sum.splits)

lemma process_crl_step_dates:
  assumes "queue m = (ix, name) # rest"
  shows "revocation_date jx (process_crl_step K m) fingerprint s =
     (case revocation_date jx m fingerprint s of
        Some d \<Rightarrow> Some d
      | None \<Rightarrow> first_date (item_dates K (ix, name) jx fingerprint s))"
proof (cases "process_crl_item K (m\<lparr>queue := rest\<rparr>) ix name")
  case (Inl e)
  from process_crl_item_no_dates [OF Inl]
  show ?thesis using assms Inl
    by (simp add: process_crl_step_def first_date_def split: option.splits)
next
  case (Inr m')
  from process_crl_item_dates [OF Inr]
  show ?thesis using assms Inr by (simp add: process_crl_step_def)
qed

lemma listed_dates_Cons:
  "first_date (listed_dates K (item # items) ix fingerprint s) =
     (case first_date (item_dates K item ix fingerprint s) of
        Some d \<Rightarrow> Some d
      | None \<Rightarrow> first_date (listed_dates K items ix fingerprint s))"
  by (simp add: listed_dates_def first_date_append split: option.splits)

lemma process_next_crl_dates:
  "length (queue m) = Suc n \<Longrightarrow> pending_crl_to_process m = int (Suc n) \<Longrightarrow>
   \<exists>m'. process_next_crl K m = Some m' \<and>
        (\<forall>ix fingerprint s.
           revocation_date ix m' fingerprint s =
             (case revocation_date ix m fingerprint s of
                Some d \<Rightarrow> Some d
              | None \<Rightarrow> first_date (listed_dates K (queue m) ix fingerprint s)))"
proof (induction n arbitrary: m)
  case 0
  then obtain ix name where q: "queue m = [(ix, name)]"
    by (cases "queue m") auto
  let ?m2 = "process_crl_step K m"
  let ?m' = "if on_crl_process ?m2 then ?m2\<lparr>on_crl_process := False\<rparr> else ?m2"
  note step = process_crl_step_Cons [OF q, of K]
  have p0: "pending_crl_to_process ?m2 = 0" using step(2) 0 by simp
  have "process_next_crl K m = Some ?m'"
    by (subst process_next_crl.simps) (simp add: p0 Let_def)
  moreover have "revocation_date ix ?m' = revocation_date ix ?m2" for ix by simp
  ultimately show ?case
    using process_crl_step_dates [OF q, of _ K] q
    by (simp add: listed_dates_def split: option.splits)
next
  case (Suc n)
  then obtain ix name rest where q: "queue m = (ix, name) # rest" and r: "length rest = Suc n"
    by (cases "queue m") auto
  let ?m2 = "process_crl_step K m"
  note step = process_crl_step_Cons [OF q, of K]
  have p: "pending_crl_to_process ?m2 = int (Suc n)" using step(2) Suc.prems by simp
  have "length (queue ?m2) = Suc n" using step(1) r by simp
  from Suc.IH [OF this p] obtain m' where m': "process_next_crl K ?m2 = Some m'"
    and d: "\<And>ix fingerprint s.
           revocation_date ix m' fingerprint s =
             (case revocation_date ix ?m2 fingerprint s of
                Some d \<Rightarrow> Some d
              | None \<Rightarrow> first_date (listed_dates K rest ix fingerprint s))"
    using step(1) by auto
  have "process_next_crl K m = Some m'"
    by (subst process_next_crl.simps) (simp add: p m' Let_def)
  moreover have "revocation_date jx m' fingerprint s =
             (case revocation_date jx m fingerprint s of
                Some d \<Rightarrow> Some d
              | None \<Rightarrow> first_date (listed_dates K (queue m) jx fingerprint s))"
    for jx fingerprint s
    unfolding d q listed_dates_Cons process_crl_step_dates [OF q]
    by (simp split: option.splits)
  ultimately show ?case by blast
qed

text \<open>
  Claim C9. Started on a queue of one or more CRL files (the counter of pending files
  equal to the length of the queue), the worker returns. Every serial number that was
  bound to a revocation date before, in any index and under any issuer fingerprint,
  is bound to the same date afterwards, whichever queued CRLs list it again; every
  serial number listed by a queued CRL that reads and decodes is bound afterwards.
  The date of a serial number after the drain is the date it had before or, if it
  had none, the first date that the queued CRLs give it, in the order of the queue
  and of the entries of each CRL; a serial number that had no date and is not listed
  has none. A file that fails to read or decode changes nothing and does not stop the
  queue.
\<close>

theorem crl_drain_first_writer_wins:
  assumes "queue m \<noteq> []" and "pending_crl_to_process m = int (length (queue m))"
  shows "\<exists>m'. process_next_crl K m = Some m' \<and> entries_kept m m' \<and>
              (\<forall>item \<in> set (queue m). listed_serials_bound K item m') \<and>
              (\<forall>ix fingerprint s.
                 revocation_date ix m' fingerprint s =
                   (case revocation_date ix m fingerprint s of
                      Some d \<Rightarrow> Some d
                    | None \<Rightarrow> first_date (listed_dates K (queue m) ix fingerprint s)))"
proof -
  from assms(1) obtain n where n: "length (queue m) = Suc n" by (cases "queue m") auto
  then have p: "pending_crl_to_process m = int (Suc n)" using assms(2) by simp
  from process_next_crl_drains [OF n p, of K] process_next_crl_dates [OF n p, of K]
  show ?thesis by auto
qed

lemma example_listed_dates:
  "first_date (listed_dates example_crypto (queue example_queued) Index_issuersCrl ''FR'' ''0A'') =
     Some (Date_at 71)"
  "first_date (listed_dates example_crypto (queue example_queued) Index_issuersCrl ''FR'' ''0B'') =
     Some (Date_at 91)"
  "first_date (listed_dates example_crypto (queue example_queued) Index_issuersCrl ''FR'' ''0C'') =
     None"
  by (simp_all add: listed_dates_def item_dates_def first_date_def example_queued_def
      example_crypto_simps example_crl_def)

lemma example_dates_before:
  "revocation_date Index_issuersCrl example_queued ''FR'' ''01:02:03'' = Some (Date_at 50)"
  "revocation_date Index_issuersCrl example_queued ''FR'' ''0A'' = None"
  "revocation_date Index_issuersCrl example_queued ''FR'' ''0B'' = None"
  "revocation_date Index_issuersCrl example_queued ''FR'' ''0C'' = None"
  by (simp_all add: revocation_date_def example_queued_def example_manager_simps)

text \<open>
  The example queue: \<open>01:02:03\<close> was revoked at 50 and stays so although \<open>a.crl\<close> lists
  it at 70; \<open>0A\<close> gets 71, the first date written, against 72 later in the same CRL
  and 90 in the next one; \<open>0B\<close> gets 91; \<open>0C\<close>, which no queued CRL lists, gets
  nothing; \<open>bad.crl\<close> is skipped.
\<close>

theorem crl_drain_first_writer_wins_witness:
  "\<exists>m'. process_next_crl example_crypto example_queued = Some m' \<and>
      revocation_date Index_issuersCrl m' ''FR'' ''01:02:03'' = Some (Date_at 50) \<and>
      revocation_date Index_issuersCrl m' ''FR'' ''0A'' = Some (Date_at 71) \<and>
      revocation_date Index_issuersCrl m' ''FR'' ''0B'' = Some (Date_at 91) \<and>
      revocation_date Index_issuersCrl m' ''FR'' ''0C'' = None"
proof -
  have q: "queue example_queued \<noteq> []"
    and p: "pending_crl_to_process example_queued = int (length (queue example_queued))"
    by (simp_all add: example_queued_def)
  from crl_drain_first_writer_wins [OF q p, of example_crypto]
  obtain m' where m': "process_next_crl example_crypto example_queued = Some m'"
    and dates: "\<And>ix fingerprint s.
                 revocation_date ix m' fingerprint s =
                   (case revocation_date ix example_queued fingerprint s of
                      Some d \<Rightarrow> Some d
                    | None \<Rightarrow> first_date (listed_dates example_crypto (queue example_queued)
                                 ix fingerprint s))"
    by blast
  show ?thesis
    using m' by (simp add: dates example_dates_before example_listed_dates)
qed

text \<open>The whole map after the drain, by running the worker.\<close>

lemma example_drain_dates:
  "\<exists>m' d'. process_next_crl example_crypto example_queued = Some m' \<and>
      issuersCrl (thumbs m') ''FR'' = Some d' \<and>
      serialNumbers d' =
        [''01:02:03'' \<mapsto> Date_at 50, ''0A'' \<mapsto> Date_at 71, ''0B'' \<mapsto> Date_at 91] \<and>
      length (crls d') = 2 \<and> queue m' = [] \<and> pending_crl_to_process m' = 0"
  apply (subst process_next_crl.simps)
  apply (simp add: example_queued_def process_crl_step_def process_crl_item_def
      example_crypto_simps example_crl_def get_index_def set_index_def example_manager_simps Let_def)
  apply (subst process_next_crl.simps)
  apply (simp add: process_crl_step_def process_crl_item_def
      example_crypto_simps example_crl_def get_index_def set_index_def example_manager_simps Let_def)
  apply (subst process_next_crl.simps)
  apply (simp add: process_crl_step_def process_crl_item_def
      example_crypto_simps example_crl_def get_index_def set_index_def example_manager_simps Let_def)
  done

end
